theory Spec2Isabelle
  imports Main "HOL-Library.Word" "HOL-Library.Signed_Division"
begin

section \<open>Machine integers of the target\<close>

text \<open>
  The sketch drives a Bluetooth Low Energy board whose analog pins include A6 and A7
  (the 32-bit ARM boards of the Nano family). On these targets \<open>int\<close>, \<open>long\<close>,
  \<open>unsigned int\<close> and \<open>unsigned long\<close> are all 32 bits wide. Signed values are
  32-bit words read with \<open>sint\<close>; arithmetic wraps around, which is what the target
  does where C leaves signed overflow open.
\<close>

type_synonym c_int = "32 word"
type_synonym c_long = "32 word"
type_synonym c_uint = "32 word"
type_synonym c_ulong = "32 word"

text \<open>C's \<open>/\<close> and \<open>%\<close> on signed operands truncate towards zero.\<close>

definition c_div :: "32 word \<Rightarrow> 32 word \<Rightarrow> 32 word" where
  "c_div a b = word_of_int (sint a sdiv sint b)"

definition c_rem :: "32 word \<Rightarrow> 32 word \<Rightarrow> 32 word" where
  "c_rem a b = word_of_int (sint a smod sint b)"

text \<open>Arduino's \<open>abs(x)\<close> is the macro \<open>((x)>0?(x):-(x))\<close>.\<close>

definition c_abs :: "c_int \<Rightarrow> c_int" where
  "c_abs x = (if 0 < sint x then x else - x)"

section \<open>Globals of the sketch\<close>

definition lightAverageWindow :: c_int where
  "lightAverageWindow = 10"

definition equalityThreshold :: c_int where
  "equalityThreshold = 50"

record controller =
  currentMovement :: c_int
  lightValue1 :: c_int
  lightValue2 :: c_int
  smoothedLight1 :: c_int
  smoothedLight2 :: c_int
  lastLightReadTime :: c_ulong
  lightReadInterval :: c_uint
  lightReadings1 :: "c_int list"
  lightReadings2 :: "c_int list"
  lightReadIndex :: c_int
  lightTotalValue1 :: c_long
  lightTotalValue2 :: c_long

text \<open>The globals as their initialisers leave them, before \<open>setup\<close> runs.\<close>

definition startup :: controller where
  "startup = \<lparr> currentMovement = 0, lightValue1 = 0, lightValue2 = 0,
     smoothedLight1 = 0, smoothedLight2 = 0, lastLightReadTime = 0,
     lightReadInterval = 50,
     lightReadings1 = replicate 10 0, lightReadings2 = replicate 10 0,
     lightReadIndex = 0, lightTotalValue1 = 0, lightTotalValue2 = 0 \<rparr>"

section \<open>initializeLightAverage\<close>

text \<open>The \<open>for\<close> loop over \<open>i\<close>, from the value of \<open>i\<close> it is entered with.\<close>

function zeroReadings :: "nat \<Rightarrow> controller \<Rightarrow> controller" where
  "zeroReadings i s =
     (if int i < sint lightAverageWindow
      then zeroReadings (i + 1)
             (s\<lparr> lightReadings1 := (lightReadings1 s)[i := 0],
                lightReadings2 := (lightReadings2 s)[i := 0] \<rparr>)
      else s)"
  by pat_completeness auto
termination
  by (relation "measure (\<lambda>(i, s). 10 - i)") (auto simp: lightAverageWindow_def)

declare zeroReadings.simps [simp del]

definition initializeLightAverage :: "controller \<Rightarrow> controller" where
  "initializeLightAverage s =
     (zeroReadings 0 s)\<lparr> lightTotalValue1 := 0, lightTotalValue2 := 0, lightReadIndex := 0 \<rparr>"

section \<open>updateLightAverage\<close>

text \<open>
  Both arrays are indexed with \<open>lightReadIndex\<close>. An index outside an array is an
  access the program has no defined result for: the model returns \<open>None\<close> there.
\<close>

definition indexInRange :: "controller \<Rightarrow> bool" where
  "indexInRange s \<longleftrightarrow>
     0 \<le> sint (lightReadIndex s)
     \<and> nat (sint (lightReadIndex s)) < length (lightReadings1 s)
     \<and> nat (sint (lightReadIndex s)) < length (lightReadings2 s)"

definition updateLightAverage :: "c_int \<Rightarrow> c_int \<Rightarrow> controller \<Rightarrow> controller option" where
  "updateLightAverage newValue1 newValue2 s =
     (if indexInRange s then
        let i = nat (sint (lightReadIndex s));
            s = s\<lparr> lightTotalValue1 := lightTotalValue1 s - lightReadings1 s ! i \<rparr>;
            s = s\<lparr> lightReadings1 := (lightReadings1 s)[i := newValue1] \<rparr>;
            s = s\<lparr> lightTotalValue1 := lightTotalValue1 s + newValue1 \<rparr>;
            s = s\<lparr> lightTotalValue2 := lightTotalValue2 s - lightReadings2 s ! i \<rparr>;
            s = s\<lparr> lightReadings2 := (lightReadings2 s)[i := newValue2] \<rparr>;
            s = s\<lparr> lightTotalValue2 := lightTotalValue2 s + newValue2 \<rparr>;
            s = s\<lparr> lightReadIndex := c_rem (lightReadIndex s + 1) lightAverageWindow \<rparr>;
            s = s\<lparr> smoothedLight1 := c_div (lightTotalValue1 s) lightAverageWindow \<rparr>;
            s = s\<lparr> smoothedLight2 := c_div (lightTotalValue2 s) lightAverageWindow \<rparr>
        in Some s
      else None)"

section \<open>handleInput\<close>

text \<open>
  \<open>currentTime\<close> is what \<open>millis()\<close> returns in this pass; \<open>analog1\<close> and
  \<open>analog2\<close> are what the two \<open>analogRead\<close> calls return if the pass reaches them.
  The comparison of the two \<open>unsigned\<close> operands is the unsigned order of words.
\<close>

definition timeToRead :: "c_ulong \<Rightarrow> controller \<Rightarrow> bool" where
  "timeToRead currentTime s \<longleftrightarrow>
     lightReadInterval s \<le> currentTime - lastLightReadTime s"

text \<open>The movement chosen from the two smoothed values (0 neutral, 1 left, 2 right).\<close>

definition movementFor :: "c_int \<Rightarrow> c_int \<Rightarrow> c_int" where
  "movementFor smoothed1 smoothed2 =
     (let difference = c_abs (smoothed1 - smoothed2)
      in if sint difference \<le> sint equalityThreshold then 0
         else if sint smoothed2 < sint smoothed1 then 1
         else 2)"

definition handleInput :: "c_ulong \<Rightarrow> c_int \<Rightarrow> c_int \<Rightarrow> controller \<Rightarrow> controller option" where
  "handleInput currentTime analog1 analog2 s =
     (if timeToRead currentTime s then
        let s = s\<lparr> lightValue1 := analog1 \<rparr>;
            s = s\<lparr> lightValue2 := analog2 \<rparr>
        in case updateLightAverage (lightValue1 s) (lightValue2 s) s of
             None \<Rightarrow> None
           | Some s \<Rightarrow>
               let s = s\<lparr> currentMovement := movementFor (smoothedLight1 s) (smoothedLight2 s) \<rparr>
               in Some (s\<lparr> lastLightReadTime := currentTime \<rparr>)
      else Some s)"

section \<open>Well-formed states and runs\<close>

text \<open>
  The arrays are declared with \<open>lightAverageWindow\<close> elements; the lists of the model
  have that length in every state the program can be in.
\<close>

definition arraysDeclared :: "controller \<Rightarrow> bool" where
  "arraysDeclared s \<longleftrightarrow> length (lightReadings1 s) = 10 \<and> length (lightReadings2 s) = 10"

definition wellFormed :: "controller \<Rightarrow> bool" where
  "wellFormed s \<longleftrightarrow>
     arraysDeclared s \<and> 0 \<le> sint (lightReadIndex s) \<and> sint (lightReadIndex s) < 10"

text \<open>The buffer of a channel read from the write position on: oldest sample first.\<close>

definition window1 :: "controller \<Rightarrow> c_int list" where
  "window1 s = rotate (nat (sint (lightReadIndex s))) (lightReadings1 s)"

definition window2 :: "controller \<Rightarrow> c_int list" where
  "window2 s = rotate (nat (sint (lightReadIndex s))) (lightReadings2 s)"

text \<open>Successive calls of \<open>updateLightAverage\<close>, one per pair of samples.\<close>

fun updates :: "(c_int \<times> c_int) list \<Rightarrow> controller \<Rightarrow> controller option" where
  "updates [] s = Some s"
| "updates ((a, b) # ps) s =
     (case updateLightAverage a b s of None \<Rightarrow> None | Some s' \<Rightarrow> updates ps s')"



text \<open>
  The state of the two filters that the totals are meant to describe: each total is the
  sum of its array, in the arithmetic of \<open>long\<close>.
\<close>

definition filterInv :: "controller \<Rightarrow> bool" where
  "filterInv s \<longleftrightarrow>
     wellFormed s
     \<and> lightTotalValue1 s = sum_list (lightReadings1 s)
     \<and> lightTotalValue2 s = sum_list (lightReadings2 s)"

text \<open>The sum of a buffer over the integers, and its quotient by the window size rounded down.\<close>

definition exactSum :: "c_int list \<Rightarrow> int" where
  "exactSum xs = sum_list (map sint xs)"

definition floorAverage :: "c_int list \<Rightarrow> int" where
  "floorAverage xs = exactSum xs div 10"

section \<open>A filter per channel\<close>

text \<open>
  The rolling average of one channel as the specification describes it (section 4.1): a
  buffer of 10 samples, a running sum and a write cursor of its own. It is compared with
  the two-channel code below.
\<close>

record rollingAverage =
  samples :: "c_int list"
  runningSum :: c_long
  cursor :: nat

definition resetFilter :: rollingAverage where
  "resetFilter = \<lparr> samples = replicate 10 0, runningSum = 0, cursor = 0 \<rparr>"

definition insertSample :: "rollingAverage \<Rightarrow> c_int \<Rightarrow> rollingAverage" where
  "insertSample f newSample =
     \<lparr> samples = (samples f)[cursor f := newSample],
       runningSum = runningSum f - samples f ! cursor f + newSample,
       cursor = (cursor f + 1) mod 10 \<rparr>"

definition smoothed :: "rollingAverage \<Rightarrow> c_int" where
  "smoothed f = c_div (runningSum f) 10"

text \<open>What the globals hold of each channel.\<close>

definition channel1 :: "controller \<Rightarrow> rollingAverage" where
  "channel1 s = \<lparr> samples = lightReadings1 s, runningSum = lightTotalValue1 s,
     cursor = nat (sint (lightReadIndex s)) \<rparr>"

definition channel2 :: "controller \<Rightarrow> rollingAverage" where
  "channel2 s = \<lparr> samples = lightReadings2 s, runningSum = lightTotalValue2 s,
     cursor = nat (sint (lightReadIndex s)) \<rparr>"

section \<open>Arithmetic of the target\<close>

lemma sint32_bounds: "- 2147483648 \<le> sint (x::32 word) \<and> sint x < 2147483648"
  using sint_ge [of x] sint_lt [of x] by simp

lemma sint32_of_int:
  "- 2147483648 \<le> k \<Longrightarrow> k < 2147483648 \<Longrightarrow> sint (word_of_int k :: 32 word) = k"
  by (simp add: sint_sbintrunc' signed_take_bit_int_eq_self)

lemma sdiv_10: "(k::int) sdiv 10 = (if 0 \<le> k then k div 10 else - ((- k) div 10))"
  by (simp add: signed_divide_int_def sgn_if)

lemma smod_10: "(k::int) smod 10 = (if 0 \<le> k then k mod 10 else - ((- k) mod 10))"
  by (simp add: signed_modulo_int_def sgn_if)

lemma sdiv_10_range:
  "- 2147483648 \<le> (k::int) \<Longrightarrow> k < 2147483648 \<Longrightarrow> - 214748364 \<le> k sdiv 10 \<and> k sdiv 10 \<le> 214748364"
  unfolding sdiv_10 by (cases "0 \<le> k") (simp_all, arith+)

lemma sint_c_div_window: "sint (c_div a lightAverageWindow) = sint a sdiv 10"
proof -
  have "- 214748364 \<le> sint a sdiv 10 \<and> sint a sdiv 10 \<le> 214748364"
    using sint32_bounds [of a] by (simp add: sdiv_10_range)
  then show ?thesis
    by (simp add: c_div_def lightAverageWindow_def sint32_of_int)
qed

lemma c_div_window_range:
  "- 214748364 \<le> sint (c_div a lightAverageWindow) \<and> sint (c_div a lightAverageWindow) \<le> 214748364"
  using sint32_bounds [of a] by (simp add: sint_c_div_window sdiv_10_range)

lemma sint_index_step:
  assumes "0 \<le> sint (x::32 word)" "sint x < 10"
  shows "sint (c_rem (x + 1) lightAverageWindow) = (sint x + 1) mod 10"
proof -
  have "sint (x + 1) = sint x + 1"
    using assms by (simp add: sint_word_add signed_take_bit_int_eq_self)
  moreover have "0 \<le> (sint x + 1) mod 10 \<and> (sint x + 1) mod 10 < 10"
    by simp
  then have "sint (word_of_int ((sint x + 1) mod 10) :: 32 word) = (sint x + 1) mod 10"
    by (intro sint32_of_int) arith+
  ultimately show ?thesis
    using assms by (simp add: c_rem_def lightAverageWindow_def smod_10)
qed

lemma window_step:
  assumes "i < length xs"
  shows "rotate ((i + 1) mod length xs) (xs[i := v]) = tl (rotate i xs) @ [v]"
proof -
  have r: "rotate i xs = drop i xs @ take i xs"
    using assms by (simp add: rotate_drop_take)
  have ne: "drop i xs \<noteq> []" using assms by simp
  have rhs: "tl (rotate i xs) @ [v] = drop (Suc i) xs @ take i xs @ [v]"
    using ne by (simp add: r drop_Suc drop_tl)
  show ?thesis
  proof (cases "i + 1 < length xs")
    case True
    then have "rotate ((i + 1) mod length xs) (xs[i := v])
                 = drop (Suc i) (xs[i := v]) @ take (Suc i) (xs[i := v])"
      by (simp add: rotate_drop_take)
    also have "drop (Suc i) (xs[i := v]) = drop (Suc i) xs" by simp
    also have "take (Suc i) (xs[i := v]) = take i xs @ [v]"
      using assms by (simp add: take_Suc_conv_app_nth)
    finally show ?thesis by (simp add: rhs)
  next
    case False
    then have n: "Suc i = length xs" using assms by simp
    then have "rotate ((i + 1) mod length xs) (xs[i := v]) = xs[i := v]" by simp
    also have "\<dots> = take i xs @ [v]"
      using assms n by (simp add: upd_conv_take_nth_drop)
    finally show ?thesis using n by (simp add: rhs)
  qed
qed

lemma sum_list_rotate_word: "sum_list (rotate n xs) = sum_list (xs :: 32 word list)"
proof -
  let ?k = "n mod length xs"
  have "sum_list xs = sum_list (take ?k xs @ drop ?k xs)" by simp
  also have "\<dots> = sum_list (take ?k xs) + sum_list (drop ?k xs)"
    by (simp only: sum_list_append)
  finally show ?thesis by (simp add: rotate_drop_take add.commute)
qed

lemma sum_list_update_word:
  assumes "i < length xs"
  shows "sum_list (xs[i := v]) = sum_list (xs :: 32 word list) - xs ! i + v"
proof -
  have "sum_list xs = sum_list (take i xs @ xs ! i # drop (Suc i) xs)"
    using assms by (simp add: id_take_nth_drop [symmetric])
  moreover have "sum_list (xs[i := v]) = sum_list (take i xs @ v # drop (Suc i) xs)"
    using assms by (simp add: upd_conv_take_nth_drop)
  ultimately show ?thesis by simp
qed

lemma zeroReadings_fill:
  "i \<le> 10 \<Longrightarrow> arraysDeclared s \<Longrightarrow>
   zeroReadings i s =
     s\<lparr> lightReadings1 := take i (lightReadings1 s) @ replicate (10 - i) 0,
        lightReadings2 := take i (lightReadings2 s) @ replicate (10 - i) 0 \<rparr>"
proof (induction i s rule: zeroReadings.induct)
  case (1 i s)
  show ?case
  proof (cases "i < 10")
    case True
    let ?s = "s\<lparr> lightReadings1 := (lightReadings1 s)[i := 0],
                  lightReadings2 := (lightReadings2 s)[i := 0] \<rparr>"
    have cond: "int i < sint lightAverageWindow"
      using True by (simp add: lightAverageWindow_def)
    have decl: "arraysDeclared ?s"
      using "1.prems" by (simp add: arraysDeclared_def)
    have step: "zeroReadings i s = zeroReadings (i + 1) ?s"
      using cond by (subst zeroReadings.simps) simp
    have ih: "zeroReadings (i + 1) ?s =
        ?s\<lparr> lightReadings1 := take (i + 1) (lightReadings1 ?s) @ replicate (10 - (i + 1)) 0,
            lightReadings2 := take (i + 1) (lightReadings2 ?s) @ replicate (10 - (i + 1)) 0 \<rparr>"
      using True decl by (intro "1.IH" cond) simp_all
    have t: "\<And>xs :: c_int list. length xs = 10 \<Longrightarrow>
        take (Suc i) (xs[i := 0]) @ replicate (10 - Suc i) 0 = take i xs @ replicate (10 - i) 0"
    proof -
      fix xs :: "c_int list" assume "length xs = 10"
      then have "take (Suc i) (xs[i := 0]) = take i xs @ [0]"
        using True by (simp add: take_Suc_conv_app_nth)
      moreover have "replicate (10 - i) (0::c_int) = 0 # replicate (10 - Suc i) 0"
        using True by (simp add: Suc_diff_Suc replicate_Suc [symmetric] del: replicate_Suc)
      ultimately show "take (Suc i) (xs[i := 0]) @ replicate (10 - Suc i) 0
          = take i xs @ replicate (10 - i) 0" by simp
    qed
    have "zeroReadings i s =
        ?s\<lparr> lightReadings1 := take (i + 1) (lightReadings1 ?s) @ replicate (10 - (i + 1)) 0,
            lightReadings2 := take (i + 1) (lightReadings2 ?s) @ replicate (10 - (i + 1)) 0 \<rparr>"
      by (simp only: step ih)
    also have "\<dots> = s\<lparr> lightReadings1 := take i (lightReadings1 s) @ replicate (10 - i) 0,
        lightReadings2 := take i (lightReadings2 s) @ replicate (10 - i) 0 \<rparr>"
      using "1.prems" t [of "lightReadings1 s"] t [of "lightReadings2 s"]
      by (simp add: arraysDeclared_def)
    finally show ?thesis .
  next
    case False
    then have "i = 10" using "1.prems" by simp
    moreover have "\<not> int i < sint lightAverageWindow"
      using False by (simp add: lightAverageWindow_def)
    then have "zeroReadings i s = s" by (subst zeroReadings.simps) simp
    ultimately show ?thesis using "1.prems" by (simp add: arraysDeclared_def)
  qed
qed

lemma initializeLightAverage_eq:
  "arraysDeclared s \<Longrightarrow>
   initializeLightAverage s =
     s\<lparr> lightReadings1 := replicate 10 0, lightReadings2 := replicate 10 0,
        lightTotalValue1 := 0, lightTotalValue2 := 0, lightReadIndex := 0 \<rparr>"
  by (simp add: initializeLightAverage_def zeroReadings_fill)

section \<open>Effect of one update\<close>

lemma wellFormed_index: "wellFormed s \<Longrightarrow> nat (sint (lightReadIndex s)) < 10"
  unfolding wellFormed_def by linarith

lemma wellFormed_lengths:
  "wellFormed s \<Longrightarrow> length (lightReadings1 s) = 10 \<and> length (lightReadings2 s) = 10"
  by (simp add: wellFormed_def arraysDeclared_def)

lemma wellFormed_indexInRange: "wellFormed s \<Longrightarrow> indexInRange s"
  using wellFormed_index [of s] wellFormed_lengths [of s]
  by (simp add: wellFormed_def indexInRange_def)

lemma updateLightAverage_Some:
  assumes "wellFormed s"
  shows "updateLightAverage a b s =
     Some (s\<lparr> lightTotalValue1 :=
                lightTotalValue1 s - lightReadings1 s ! nat (sint (lightReadIndex s)) + a,
              lightReadings1 := (lightReadings1 s)[nat (sint (lightReadIndex s)) := a],
              lightTotalValue2 :=
                lightTotalValue2 s - lightReadings2 s ! nat (sint (lightReadIndex s)) + b,
              lightReadings2 := (lightReadings2 s)[nat (sint (lightReadIndex s)) := b],
              lightReadIndex := c_rem (lightReadIndex s + 1) lightAverageWindow,
              smoothedLight1 :=
                c_div (lightTotalValue1 s - lightReadings1 s ! nat (sint (lightReadIndex s)) + a)
                  lightAverageWindow,
              smoothedLight2 :=
                c_div (lightTotalValue2 s - lightReadings2 s ! nat (sint (lightReadIndex s)) + b)
                  lightAverageWindow \<rparr>)"
  using wellFormed_indexInRange [OF assms]
  by (simp add: updateLightAverage_def Let_def)

lemma update_wellFormed:
  assumes "wellFormed s" "updateLightAverage a b s = Some s'"
  shows "wellFormed s'"
proof -
  have "0 \<le> sint (lightReadIndex s)" "sint (lightReadIndex s) < 10"
    using assms(1) by (simp_all add: wellFormed_def)
  then have "sint (c_rem (lightReadIndex s + 1) lightAverageWindow) = (sint (lightReadIndex s) + 1) mod 10"
    by (rule sint_index_step)
  moreover have "0 \<le> (sint (lightReadIndex s) + 1) mod 10 \<and> (sint (lightReadIndex s) + 1) mod 10 < 10"
    by simp
  ultimately show ?thesis
    using assms by (auto simp: updateLightAverage_Some wellFormed_def arraysDeclared_def)
qed

lemma update_index:
  assumes "wellFormed s" "updateLightAverage a b s = Some s'"
  shows "nat (sint (lightReadIndex s')) = (nat (sint (lightReadIndex s)) + 1) mod 10"
proof -
  have r: "0 \<le> sint (lightReadIndex s)" "sint (lightReadIndex s) < 10"
    using assms(1) by (simp_all add: wellFormed_def)
  then have "sint (c_rem (lightReadIndex s + 1) lightAverageWindow) = (sint (lightReadIndex s) + 1) mod 10"
    by (rule sint_index_step)
  moreover have "lightReadIndex s' = c_rem (lightReadIndex s + 1) lightAverageWindow"
    using assms by (auto simp: updateLightAverage_Some)
  ultimately have "sint (lightReadIndex s') = (sint (lightReadIndex s) + 1) mod 10" by simp
  then show ?thesis using r by (simp add: nat_mod_distrib nat_add_distrib)
qed

lemma update_window1:
  assumes "wellFormed s" "updateLightAverage a b s = Some s'"
  shows "window1 s' = tl (window1 s) @ [a]"
proof -
  let ?i = "nat (sint (lightReadIndex s))"
  have len: "length (lightReadings1 s) = 10" and i: "?i < 10"
    using wellFormed_lengths [OF assms(1)] wellFormed_index [OF assms(1)] by simp_all
  have "lightReadings1 s' = (lightReadings1 s)[?i := a]"
    using assms by (auto simp: updateLightAverage_Some)
  moreover have "nat (sint (lightReadIndex s')) = (?i + 1) mod length (lightReadings1 s)"
    using update_index [OF assms] len by simp
  ultimately show ?thesis
    using window_step [of ?i "lightReadings1 s" a] i len by (simp add: window1_def)
qed

lemma update_window2:
  assumes "wellFormed s" "updateLightAverage a b s = Some s'"
  shows "window2 s' = tl (window2 s) @ [b]"
proof -
  let ?i = "nat (sint (lightReadIndex s))"
  have len: "length (lightReadings2 s) = 10" and i: "?i < 10"
    using wellFormed_lengths [OF assms(1)] wellFormed_index [OF assms(1)] by simp_all
  have "lightReadings2 s' = (lightReadings2 s)[?i := b]"
    using assms by (auto simp: updateLightAverage_Some)
  moreover have "nat (sint (lightReadIndex s')) = (?i + 1) mod length (lightReadings2 s)"
    using update_index [OF assms] len by simp
  ultimately show ?thesis
    using window_step [of ?i "lightReadings2 s" b] i len by (simp add: window2_def)
qed

lemma update_drift:
  assumes "wellFormed s" "updateLightAverage a b s = Some s'"
  shows "lightTotalValue1 s' - sum_list (lightReadings1 s')
           = lightTotalValue1 s - sum_list (lightReadings1 s)"
    and "lightTotalValue2 s' - sum_list (lightReadings2 s')
           = lightTotalValue2 s - sum_list (lightReadings2 s)"
proof -
  let ?i = "nat (sint (lightReadIndex s))"
  have i: "?i < length (lightReadings1 s)" "?i < length (lightReadings2 s)"
    using wellFormed_lengths [OF assms(1)] wellFormed_index [OF assms(1)] by simp_all
  show "lightTotalValue1 s' - sum_list (lightReadings1 s')
           = lightTotalValue1 s - sum_list (lightReadings1 s)"
    using assms i by (auto simp: updateLightAverage_Some sum_list_update_word)
  show "lightTotalValue2 s' - sum_list (lightReadings2 s')
           = lightTotalValue2 s - sum_list (lightReadings2 s)"
    using assms i by (auto simp: updateLightAverage_Some sum_list_update_word)
qed

lemma update_smoothed:
  assumes "wellFormed s" "updateLightAverage a b s = Some s'"
  shows "smoothedLight1 s' = c_div (lightTotalValue1 s') lightAverageWindow"
    and "smoothedLight2 s' = c_div (lightTotalValue2 s') lightAverageWindow"
  using assms by (auto simp: updateLightAverage_Some)

lemma update_frame:
  assumes "wellFormed s" "updateLightAverage a b s = Some s'"
  shows "currentMovement s' = currentMovement s"
    and "lightValue1 s' = lightValue1 s"
    and "lightValue2 s' = lightValue2 s"
    and "lastLightReadTime s' = lastLightReadTime s"
    and "lightReadInterval s' = lightReadInterval s"
  using assms by (auto simp: updateLightAverage_Some)

section \<open>Effect of one pass\<close>

lemma sint_diff_small:
  assumes "- 214748364 \<le> sint (x::32 word)" "sint x \<le> 214748364"
      and "- 214748364 \<le> sint (y::32 word)" "sint y \<le> 214748364"
  shows "sint (x - y) = sint x - sint y"
  using assms by (simp add: sint_word_diff signed_take_bit_int_eq_self)

lemma sint_c_abs:
  assumes "- 2147483648 < sint (d::32 word)"
  shows "sint (c_abs d) = \<bar>sint d\<bar>"
proof -
  have "sint (- d) = - sint d"
    using assms sint32_bounds [of d]
    by (simp add: sint_word_minus signed_take_bit_int_eq_self)
  then show ?thesis by (simp add: c_abs_def)
qed

lemma movementFor_bounded:
  assumes "- 214748364 \<le> sint (x::32 word)" "sint x \<le> 214748364"
      and "- 214748364 \<le> sint (y::32 word)" "sint y \<le> 214748364"
  shows "movementFor x y =
     (if \<bar>sint x - sint y\<bar> \<le> 50 then 0 else if sint y < sint x then 1 else 2)"
proof -
  have d: "sint (x - y) = sint x - sint y"
    using assms by (rule sint_diff_small)
  then have "- 2147483648 < sint (x - y)" using assms by simp
  then have "sint (c_abs (x - y)) = \<bar>sint x - sint y\<bar>"
    using d by (simp add: sint_c_abs)
  then show ?thesis
    by (simp add: movementFor_def Let_def equalityThreshold_def)
qed

lemma handleInput_serviced:
  assumes "wellFormed s" "timeToRead now s"
  shows "\<exists>u. updateLightAverage a b (s\<lparr> lightValue1 := a, lightValue2 := b \<rparr>) = Some u
           \<and> handleInput now a b s =
               Some (u\<lparr> currentMovement := movementFor (smoothedLight1 u) (smoothedLight2 u),
                        lastLightReadTime := now \<rparr>)"
proof -
  have "wellFormed (s\<lparr> lightValue1 := a, lightValue2 := b \<rparr>)"
    using assms(1) by (simp add: wellFormed_def arraysDeclared_def)
  then obtain u where u: "updateLightAverage a b (s\<lparr> lightValue1 := a, lightValue2 := b \<rparr>) = Some u"
    by (simp add: updateLightAverage_Some)
  then show ?thesis
    using assms(2) by (simp add: handleInput_def Let_def)
qed

lemma handleInput_skipped: "\<not> timeToRead now s \<Longrightarrow> handleInput now a b s = Some s"
  by (simp add: handleInput_def)

lemma timeToRead_modular:
  "timeToRead now s \<longleftrightarrow>
     uint (lightReadInterval s) \<le> (uint now - uint (lastLightReadTime s)) mod 2 ^ 32"
  by (simp add: timeToRead_def word_le_def uint_word_ariths)

lemma handleInput_forgets_movement:
  "timeToRead now s \<Longrightarrow>
   handleInput now a b (s\<lparr> currentMovement := m \<rparr>) = handleInput now a b s"
  by (simp add: handleInput_def timeToRead_def updateLightAverage_def indexInRange_def Let_def)

section \<open>Runs\<close>

lemma wellFormed_window_length:
  "wellFormed s \<Longrightarrow> length (window1 s) = 10 \<and> length (window2 s) = 10"
  using wellFormed_lengths [of s] by (simp add: window1_def window2_def)

lemma slide_drop:
  assumes "length w = 10" and "w' = tl w @ [a]" and "r = drop n (w' @ xs)"
  shows "r = drop (Suc n) (w @ a # xs)"
proof -
  from assms(1) obtain x v where "w = x # v" by (cases w) auto
  then show ?thesis using assms(2,3) by simp
qed

lemma updates_window:
  "wellFormed s \<Longrightarrow>
   \<exists>s'. updates ps s = Some s' \<and> wellFormed s'
     \<and> window1 s' = drop (length ps) (window1 s @ map fst ps)
     \<and> window2 s' = drop (length ps) (window2 s @ map snd ps)
     \<and> lightTotalValue1 s' - sum_list (lightReadings1 s')
           = lightTotalValue1 s - sum_list (lightReadings1 s)
     \<and> lightTotalValue2 s' - sum_list (lightReadings2 s')
           = lightTotalValue2 s - sum_list (lightReadings2 s)"
proof (induction ps arbitrary: s)
  case Nil
  then show ?case by simp
next
  case (Cons p ps)
  obtain a b where p: "p = (a, b)" by (cases p)
  obtain u where u: "updateLightAverage a b s = Some u"
    using Cons.prems by (simp add: updateLightAverage_Some)
  have wu: "wellFormed u" using Cons.prems u by (rule update_wellFormed)
  from Cons.IH [OF wu] obtain s' where s':
    "updates ps u = Some s'" "wellFormed s'"
    "window1 s' = drop (length ps) (window1 u @ map fst ps)"
    "window2 s' = drop (length ps) (window2 u @ map snd ps)"
    "lightTotalValue1 s' - sum_list (lightReadings1 s')
       = lightTotalValue1 u - sum_list (lightReadings1 u)"
    "lightTotalValue2 s' - sum_list (lightReadings2 s')
       = lightTotalValue2 u - sum_list (lightReadings2 u)"
    by blast
  have len: "length (window1 s) = 10" "length (window2 s) = 10"
    using wellFormed_window_length [OF Cons.prems] by simp_all
  have "window1 s' = drop (Suc (length ps)) (window1 s @ a # map fst ps)"
    by (rule slide_drop [OF len(1) update_window1 [OF Cons.prems u] s'(3)])
  then have w1: "window1 s' = drop (length (p # ps)) (window1 s @ map fst (p # ps))"
    by (simp add: p)
  have "window2 s' = drop (Suc (length ps)) (window2 s @ b # map snd ps)"
    by (rule slide_drop [OF len(2) update_window2 [OF Cons.prems u] s'(4)])
  then have w2: "window2 s' = drop (length (p # ps)) (window2 s @ map snd (p # ps))"
    by (simp add: p)
  have "updates (p # ps) s = Some s'" using u s'(1) by (simp add: p)
  then show ?case
    using s'(2) w1 w2 s'(5,6) update_drift [OF Cons.prems u] by simp
qed

lemma updates_smoothed:
  "wellFormed s \<Longrightarrow> ps \<noteq> [] \<Longrightarrow> updates ps s = Some s' \<Longrightarrow>
   smoothedLight1 s' = c_div (lightTotalValue1 s') lightAverageWindow
   \<and> smoothedLight2 s' = c_div (lightTotalValue2 s') lightAverageWindow"
proof (induction ps arbitrary: s)
  case Nil
  then show ?case by simp
next
  case (Cons p ps)
  obtain a b where p: "p = (a, b)" by (cases p)
  obtain u where u: "updateLightAverage a b s = Some u"
    using Cons.prems(1) by (simp add: updateLightAverage_Some)
  have wu: "wellFormed u" using Cons.prems(1) u by (rule update_wellFormed)
  have run: "updates ps u = Some s'" using Cons.prems(3) u by (simp add: p)
  show ?case
  proof (cases "ps = []")
    case True
    then have "s' = u" using run by simp
    then show ?thesis using update_smoothed [OF Cons.prems(1) u] by simp
  next
    case False
    then show ?thesis using Cons.IH [OF wu False run] by simp
  qed
qed

lemma window_sums:
  "sum_list (window1 s) = sum_list (lightReadings1 s)"
  "sum_list (window2 s) = sum_list (lightReadings2 s)"
  by (simp_all add: window1_def window2_def sum_list_rotate_word)





lemma arraysDeclared_startup: "arraysDeclared startup"
  by (simp add: arraysDeclared_def startup_def)

lemma initialized_startup: "initializeLightAverage startup = startup"
  by (simp add: initializeLightAverage_eq [OF arraysDeclared_startup]) (simp add: startup_def)

lemma wellFormed_startup: "wellFormed startup"
  by (simp add: wellFormed_def arraysDeclared_def startup_def)

section \<open>Claims\<close>

lemma replicate_ten: "replicate 10 x = [x, x, x, x, x, x, x, x, x, x]"
  by (simp add: eval_nat_numeral)

text \<open>
  C1. On every pass that gets past the timer, \<open>handleInput\<close> stores the two readings,
  runs \<open>updateLightAverage\<close> on them and compares the two averages \<open>u\<close> holds after
  that update, which are the new totals divided by 10. Its result is the updated state
  with the clock value stored and the movement set: with \<open>diff\<close> the absolute difference
  of the two averages as integers, the movement is 0 (neutral) when \<open>diff \<le> 50\<close>, the
  boundary \<open>diff = 50\<close> included, 1 (left, paddle up) when \<open>diff > 50\<close> and the first
  average is the larger, and 2 (right, paddle down) when \<open>diff > 50\<close> and the first
  average is the smaller. Nothing else of the state changes. From buffers that make the
  averages (700, 500), (500, 700), (520, 500) and (550, 600) the pass sets the movement
  to 1, 2, 0 and 0.
\<close>

theorem handleInput_classification:
  "(wellFormed s \<and> timeToRead now s \<longrightarrow>
      (\<exists>u s'. updateLightAverage a b (s\<lparr> lightValue1 := a, lightValue2 := b \<rparr>) = Some u
         \<and> smoothedLight1 u =
             c_div (lightTotalValue1 s - lightReadings1 s ! nat (sint (lightReadIndex s)) + a)
               lightAverageWindow
         \<and> smoothedLight2 u =
             c_div (lightTotalValue2 s - lightReadings2 s ! nat (sint (lightReadIndex s)) + b)
               lightAverageWindow
         \<and> handleInput now a b s = Some s'
         \<and> s' = u\<lparr> currentMovement := currentMovement s', lastLightReadTime := now \<rparr>
         \<and> (\<bar>sint (smoothedLight1 u) - sint (smoothedLight2 u)\<bar> \<le> 50
              \<longrightarrow> currentMovement s' = 0)
         \<and> (50 < \<bar>sint (smoothedLight1 u) - sint (smoothedLight2 u)\<bar>
              \<and> sint (smoothedLight2 u) < sint (smoothedLight1 u)
              \<longrightarrow> currentMovement s' = 1)
         \<and> (50 < \<bar>sint (smoothedLight1 u) - sint (smoothedLight2 u)\<bar>
              \<and> sint (smoothedLight1 u) < sint (smoothedLight2 u)
              \<longrightarrow> currentMovement s' = 2)))
   \<and> map_option smoothedLight1 (handleInput 50 700 500
        (startup\<lparr> lightReadings1 := replicate 10 700, lightTotalValue1 := 7000,
           lightReadings2 := replicate 10 500, lightTotalValue2 := 5000 \<rparr>)) = Some 700
   \<and> map_option smoothedLight2 (handleInput 50 700 500
        (startup\<lparr> lightReadings1 := replicate 10 700, lightTotalValue1 := 7000,
           lightReadings2 := replicate 10 500, lightTotalValue2 := 5000 \<rparr>)) = Some 500
   \<and> map_option currentMovement (handleInput 50 700 500
        (startup\<lparr> lightReadings1 := replicate 10 700, lightTotalValue1 := 7000,
           lightReadings2 := replicate 10 500, lightTotalValue2 := 5000 \<rparr>)) = Some 1
   \<and> map_option smoothedLight1 (handleInput 50 500 700
        (startup\<lparr> lightReadings1 := replicate 10 500, lightTotalValue1 := 5000,
           lightReadings2 := replicate 10 700, lightTotalValue2 := 7000 \<rparr>)) = Some 500
   \<and> map_option smoothedLight2 (handleInput 50 500 700
        (startup\<lparr> lightReadings1 := replicate 10 500, lightTotalValue1 := 5000,
           lightReadings2 := replicate 10 700, lightTotalValue2 := 7000 \<rparr>)) = Some 700
   \<and> map_option currentMovement (handleInput 50 500 700
        (startup\<lparr> lightReadings1 := replicate 10 500, lightTotalValue1 := 5000,
           lightReadings2 := replicate 10 700, lightTotalValue2 := 7000 \<rparr>)) = Some 2
   \<and> map_option smoothedLight1 (handleInput 50 520 500
        (startup\<lparr> lightReadings1 := replicate 10 520, lightTotalValue1 := 5200,
           lightReadings2 := replicate 10 500, lightTotalValue2 := 5000 \<rparr>)) = Some 520
   \<and> map_option smoothedLight2 (handleInput 50 520 500
        (startup\<lparr> lightReadings1 := replicate 10 520, lightTotalValue1 := 5200,
           lightReadings2 := replicate 10 500, lightTotalValue2 := 5000 \<rparr>)) = Some 500
   \<and> map_option currentMovement (handleInput 50 520 500
        (startup\<lparr> lightReadings1 := replicate 10 520, lightTotalValue1 := 5200,
           lightReadings2 := replicate 10 500, lightTotalValue2 := 5000 \<rparr>)) = Some 0
   \<and> map_option smoothedLight1 (handleInput 50 550 600
        (startup\<lparr> lightReadings1 := replicate 10 550, lightTotalValue1 := 5500,
           lightReadings2 := replicate 10 600, lightTotalValue2 := 6000 \<rparr>)) = Some 550
   \<and> map_option smoothedLight2 (handleInput 50 550 600
        (startup\<lparr> lightReadings1 := replicate 10 550, lightTotalValue1 := 5500,
           lightReadings2 := replicate 10 600, lightTotalValue2 := 6000 \<rparr>)) = Some 600
   \<and> map_option currentMovement (handleInput 50 550 600
        (startup\<lparr> lightReadings1 := replicate 10 550, lightTotalValue1 := 5500,
           lightReadings2 := replicate 10 600, lightTotalValue2 := 6000 \<rparr>)) = Some 0"
proof (intro conjI impI)
  assume h: "wellFormed s \<and> timeToRead now s"
  let ?s0 = "s\<lparr> lightValue1 := a, lightValue2 := b \<rparr>"
  have w0: "wellFormed ?s0"
    using h by (simp add: wellFormed_def arraysDeclared_def)
  from h handleInput_serviced [of s now a b] obtain u where
    u: "updateLightAverage a b ?s0 = Some u"
    and r: "handleInput now a b s =
       Some (u\<lparr> currentMovement := movementFor (smoothedLight1 u) (smoothedLight2 u),
                lastLightReadTime := now \<rparr>)"
    by blast
  let ?s' = "u\<lparr> currentMovement := movementFor (smoothedLight1 u) (smoothedLight2 u),
                lastLightReadTime := now \<rparr>"
  have sm: "smoothedLight1 u = c_div (lightTotalValue1 u) lightAverageWindow"
    "smoothedLight2 u = c_div (lightTotalValue2 u) lightAverageWindow"
    using update_smoothed [OF w0 u] by simp_all
  have tot: "lightTotalValue1 u =
      lightTotalValue1 s - lightReadings1 s ! nat (sint (lightReadIndex s)) + a"
    "lightTotalValue2 u =
      lightTotalValue2 s - lightReadings2 s ! nat (sint (lightReadIndex s)) + b"
    using u by (auto simp: updateLightAverage_Some [OF w0])
  have m: "movementFor (smoothedLight1 u) (smoothedLight2 u) =
     (if \<bar>sint (smoothedLight1 u) - sint (smoothedLight2 u)\<bar> \<le> 50 then 0
      else if sint (smoothedLight2 u) < sint (smoothedLight1 u) then 1 else 2)"
    using c_div_window_range [of "lightTotalValue1 u"] c_div_window_range [of "lightTotalValue2 u"]
    by (intro movementFor_bounded) (simp_all add: sm)
  define l where "l = sint (smoothedLight1 u)"
  define r where "r = sint (smoothedLight2 u)"
  have mv: "currentMovement ?s' = (if \<bar>l - r\<bar> \<le> 50 then 0 else if r < l then 1 else 2)"
    by (simp add: m l_def r_def)
  have c0: "\<bar>sint (smoothedLight1 u) - sint (smoothedLight2 u)\<bar> \<le> 50
      \<longrightarrow> currentMovement ?s' = 0"
    unfolding l_def [symmetric] r_def [symmetric] mv by auto
  have c1: "50 < \<bar>sint (smoothedLight1 u) - sint (smoothedLight2 u)\<bar>
      \<and> sint (smoothedLight2 u) < sint (smoothedLight1 u) \<longrightarrow> currentMovement ?s' = 1"
    unfolding l_def [symmetric] r_def [symmetric] mv by auto
  have c2: "50 < \<bar>sint (smoothedLight1 u) - sint (smoothedLight2 u)\<bar>
      \<and> sint (smoothedLight1 u) < sint (smoothedLight2 u) \<longrightarrow> currentMovement ?s' = 2"
    unfolding l_def [symmetric] r_def [symmetric] mv by auto
  have d: "smoothedLight1 u =
             c_div (lightTotalValue1 s - lightReadings1 s ! nat (sint (lightReadIndex s)) + a)
               lightAverageWindow"
    "smoothedLight2 u =
             c_div (lightTotalValue2 s - lightReadings2 s ! nat (sint (lightReadIndex s)) + b)
               lightAverageWindow"
    using sm tot by simp_all
  have e: "?s' = u\<lparr> currentMovement := currentMovement ?s', lastLightReadTime := now \<rparr>"
    by simp
  show "\<exists>u s'. updateLightAverage a b (s\<lparr> lightValue1 := a, lightValue2 := b \<rparr>) = Some u
         \<and> smoothedLight1 u =
             c_div (lightTotalValue1 s - lightReadings1 s ! nat (sint (lightReadIndex s)) + a)
               lightAverageWindow
         \<and> smoothedLight2 u =
             c_div (lightTotalValue2 s - lightReadings2 s ! nat (sint (lightReadIndex s)) + b)
               lightAverageWindow
         \<and> handleInput now a b s = Some s'
         \<and> s' = u\<lparr> currentMovement := currentMovement s', lastLightReadTime := now \<rparr>
         \<and> (\<bar>sint (smoothedLight1 u) - sint (smoothedLight2 u)\<bar> \<le> 50
              \<longrightarrow> currentMovement s' = 0)
         \<and> (50 < \<bar>sint (smoothedLight1 u) - sint (smoothedLight2 u)\<bar>
              \<and> sint (smoothedLight2 u) < sint (smoothedLight1 u)
              \<longrightarrow> currentMovement s' = 1)
         \<and> (50 < \<bar>sint (smoothedLight1 u) - sint (smoothedLight2 u)\<bar>
              \<and> sint (smoothedLight1 u) < sint (smoothedLight2 u)
              \<longrightarrow> currentMovement s' = 2)"
    using u r d e c0 c1 c2 by blast
qed (simp_all add: handleInput_def timeToRead_def updateLightAverage_def indexInRange_def Let_def
      startup_def c_div_def c_rem_def lightAverageWindow_def movementFor_def c_abs_def
      equalityThreshold_def signed_divide_int_def signed_modulo_int_def replicate_ten)

theorem handleInput_classification_witness:
  "wellFormed startup \<and> timeToRead 60 startup
   \<and> handleInput 60 0 1000 startup =
       Some (startup\<lparr> currentMovement := 2, lightValue1 := 0, lightValue2 := 1000,
          smoothedLight1 := 0, smoothedLight2 := 100, lastLightReadTime := 60,
          lightReadings2 := [1000, 0, 0, 0, 0, 0, 0, 0, 0, 0],
          lightReadIndex := 1, lightTotalValue2 := 1000 \<rparr>)"
proof -
  let ?u = "startup\<lparr> lightValue1 := 0, lightValue2 := 1000,
          smoothedLight1 := 0, smoothedLight2 := 100,
          lightReadings2 := [1000, 0, 0, 0, 0, 0, 0, 0, 0, 0],
          lightReadIndex := 1, lightTotalValue2 := 1000 \<rparr>"
  have g: "timeToRead 60 startup" by (simp add: timeToRead_def startup_def)
  from handleInput_classification [of startup 60 0 1000] wellFormed_startup g
  obtain u s' where
    u: "updateLightAverage 0 1000 (startup\<lparr> lightValue1 := 0, lightValue2 := 1000 \<rparr>) = Some u"
    and r: "handleInput 60 0 1000 startup = Some s'"
    and e: "s' = u\<lparr> currentMovement := currentMovement s', lastLightReadTime := 60 \<rparr>"
    and c: "50 < \<bar>sint (smoothedLight1 u) - sint (smoothedLight2 u)\<bar>
              \<and> sint (smoothedLight1 u) < sint (smoothedLight2 u)
              \<longrightarrow> currentMovement s' = 2"
    by blast
  have "updateLightAverage 0 1000 (startup\<lparr> lightValue1 := 0, lightValue2 := 1000 \<rparr>) = Some ?u"
    by (simp add: updateLightAverage_def indexInRange_def Let_def
        startup_def c_div_def c_rem_def lightAverageWindow_def
        signed_divide_int_def signed_modulo_int_def replicate_ten)
  then have ue: "u = ?u" using u by simp
  have "currentMovement s' = 2" using c by (simp add: ue)
  then have "s' = ?u\<lparr> currentMovement := 2, lastLightReadTime := 60 \<rparr>"
    using e ue by simp
  then show ?thesis using wellFormed_startup g r by (simp add: startup_def)
qed

text \<open>
  C2, as amended. A pass whose clock value is less than \<open>lightReadInterval\<close> past
  \<open>lastLightReadTime\<close>, the difference taken in unsigned 32-bit arithmetic, changes
  nothing: \<open>handleInput\<close> hands back the state it was given, so the movement code, both
  buffers, both totals, the write index and \<open>lastLightReadTime\<close> are as before. In
  particular, after a pass that got past the timer at \<open>now1\<close>, a pass at \<open>now2\<close> with
  \<open>now2 - now1 < lightReadInterval\<close> does not get past it and leaves the state as the
  first pass left it. Two passes close to each other of which the first was skipped are
  not covered: the second is serviced once the interval since the last serviced pass is
  over, as the passes at 40 ms and 60 ms after start show.
\<close>

theorem handleInput_gate_closed:
  "(now - lastLightReadTime s < lightReadInterval s \<longrightarrow> handleInput now a b s = Some s)
   \<and> (timeToRead now1 s \<and> handleInput now1 a b s = Some s1
        \<and> now2 - now1 < lightReadInterval s
      \<longrightarrow> \<not> timeToRead now2 s1 \<and> handleInput now2 c d s1 = Some s1)"
proof (intro conjI impI)
  assume "now - lastLightReadTime s < lightReadInterval s"
  then have "\<not> timeToRead now s" by (simp add: timeToRead_def not_le)
  then show "handleInput now a b s = Some s" by (rule handleInput_skipped)
next
  assume h: "timeToRead now1 s \<and> handleInput now1 a b s = Some s1
        \<and> now2 - now1 < lightReadInterval s"
  then have "lastLightReadTime s1 = now1 \<and> lightReadInterval s1 = lightReadInterval s"
    by (auto simp: handleInput_def updateLightAverage_def Let_def
        split: if_splits option.splits)
  then have n: "\<not> timeToRead now2 s1" using h by (simp add: timeToRead_def not_le)
  show "\<not> timeToRead now2 s1" by (rule n)
  show "handleInput now2 c d s1 = Some s1" using n by (rule handleInput_skipped)
qed

theorem handleInput_gate_closed_witness:
  "(40 :: 32 word) - lastLightReadTime startup < lightReadInterval startup
   \<and> handleInput 40 1000 200 startup = Some startup
   \<and> timeToRead 60 startup
   \<and> handleInput 60 1000 200 startup =
       Some (startup\<lparr> currentMovement := 1, lightValue1 := 1000, lightValue2 := 200,
          smoothedLight1 := 100, smoothedLight2 := 20, lastLightReadTime := 60,
          lightReadings1 := [1000, 0, 0, 0, 0, 0, 0, 0, 0, 0],
          lightReadings2 := [200, 0, 0, 0, 0, 0, 0, 0, 0, 0],
          lightReadIndex := 1, lightTotalValue1 := 1000, lightTotalValue2 := 200 \<rparr>)
   \<and> (100 :: 32 word) - 60 < lightReadInterval startup
   \<and> handleInput 100 900 300
       (startup\<lparr> currentMovement := 1, lightValue1 := 1000, lightValue2 := 200,
          smoothedLight1 := 100, smoothedLight2 := 20, lastLightReadTime := 60,
          lightReadings1 := [1000, 0, 0, 0, 0, 0, 0, 0, 0, 0],
          lightReadings2 := [200, 0, 0, 0, 0, 0, 0, 0, 0, 0],
          lightReadIndex := 1, lightTotalValue1 := 1000, lightTotalValue2 := 200 \<rparr>)
     = Some (startup\<lparr> currentMovement := 1, lightValue1 := 1000, lightValue2 := 200,
          smoothedLight1 := 100, smoothedLight2 := 20, lastLightReadTime := 60,
          lightReadings1 := [1000, 0, 0, 0, 0, 0, 0, 0, 0, 0],
          lightReadings2 := [200, 0, 0, 0, 0, 0, 0, 0, 0, 0],
          lightReadIndex := 1, lightTotalValue1 := 1000, lightTotalValue2 := 200 \<rparr>)"
proof -
  let ?s1 = "startup\<lparr> currentMovement := 1, lightValue1 := 1000, lightValue2 := 200,
          smoothedLight1 := 100, smoothedLight2 := 20, lastLightReadTime := 60,
          lightReadings1 := [1000, 0, 0, 0, 0, 0, 0, 0, 0, 0],
          lightReadings2 := [200, 0, 0, 0, 0, 0, 0, 0, 0, 0],
          lightReadIndex := 1, lightTotalValue1 := 1000, lightTotalValue2 := 200 \<rparr>"
  have g: "timeToRead 60 startup" by (simp add: timeToRead_def startup_def)
  have r: "handleInput 60 1000 200 startup = Some ?s1"
    using g by (simp add: handleInput_def updateLightAverage_def indexInRange_def Let_def
        startup_def c_div_def c_rem_def lightAverageWindow_def movementFor_def c_abs_def
        equalityThreshold_def signed_divide_int_def signed_modulo_int_def replicate_ten)
  have d: "(100 :: 32 word) - 60 < lightReadInterval startup" by (simp add: startup_def)
  have e: "(40 :: 32 word) - lastLightReadTime startup < lightReadInterval startup"
    by (simp add: startup_def)
  show ?thesis
    using handleInput_gate_closed [where now = 40 and s = startup and a = 1000 and b = 200 and ?now1.0 = 60
        and ?s1.0 = ?s1 and ?now2.0 = 100 and c = 900 and d = 300] g r d e
    by simp
qed

theorem handleInput_two_calls_counterexample:
  "handleInput 40 1000 200 (initializeLightAverage startup) = Some (initializeLightAverage startup)
   \<and> (60 :: 32 word) - 40 < lightReadInterval (initializeLightAverage startup)
   \<and> map_option lightReadings1 (handleInput 60 1000 200 (initializeLightAverage startup))
       = Some [1000, 0, 0, 0, 0, 0, 0, 0, 0, 0]
   \<and> lightReadings1 (initializeLightAverage startup) = [0, 0, 0, 0, 0, 0, 0, 0, 0, 0]
   \<and> map_option currentMovement (handleInput 60 1000 200 (initializeLightAverage startup))
       = Some 1
   \<and> currentMovement (initializeLightAverage startup) = 0"
  unfolding initialized_startup
  by (simp add: handleInput_def timeToRead_def updateLightAverage_def indexInRange_def Let_def
        startup_def c_div_def c_rem_def lightAverageWindow_def movementFor_def c_abs_def
        equalityThreshold_def signed_divide_int_def signed_modulo_int_def replicate_ten)

text \<open>
  C8. The movement code stored before a pass has no influence on a pass that gets past
  the timer: from two states equal except for \<open>currentMovement\<close>, with the same clock
  value and the same readings, \<open>handleInput\<close> reaches the same state, so the same new
  movement code; from a well-formed state it does reach one.
\<close>

theorem handleInput_memoryless:
  "timeToRead now s \<longrightarrow>
     handleInput now a b (s\<lparr> currentMovement := m \<rparr>) = handleInput now a b s
     \<and> (wellFormed s \<longrightarrow>
          (\<exists>s'. handleInput now a b s = Some s'
             \<and> handleInput now a b (s\<lparr> currentMovement := m \<rparr>) = Some s'))"
proof
  assume g: "timeToRead now s"
  have e: "handleInput now a b (s\<lparr> currentMovement := m \<rparr>) = handleInput now a b s"
    using g by (rule handleInput_forgets_movement)
  have "wellFormed s \<longrightarrow> (\<exists>s'. handleInput now a b s = Some s')"
    using g handleInput_serviced [of s now a b] by blast
  then show "handleInput now a b (s\<lparr> currentMovement := m \<rparr>) = handleInput now a b s
     \<and> (wellFormed s \<longrightarrow>
          (\<exists>s'. handleInput now a b s = Some s'
             \<and> handleInput now a b (s\<lparr> currentMovement := m \<rparr>) = Some s'))"
    using e by auto
qed

theorem handleInput_memoryless_witness:
  "timeToRead 60 startup \<and> wellFormed startup
   \<and> map_option currentMovement (handleInput 60 1000 200 (startup\<lparr> currentMovement := 2 \<rparr>)) = Some 1
   \<and> map_option currentMovement (handleInput 60 1000 200 startup) = Some 1"
proof -
  have g: "timeToRead 60 startup" by (simp add: timeToRead_def startup_def)
  have r: "map_option currentMovement (handleInput 60 1000 200 startup) = Some 1"
    using g by (simp add: handleInput_def updateLightAverage_def indexInRange_def Let_def
        startup_def c_div_def c_rem_def lightAverageWindow_def movementFor_def c_abs_def
        equalityThreshold_def signed_divide_int_def signed_modulo_int_def replicate_ten)
  show ?thesis
    using handleInput_memoryless [of 60 startup 1000 200 2] g r wellFormed_startup by simp
qed

text \<open>
  C10. The timer test is an unsigned 32-bit subtraction: a pass is serviced exactly when
  \<open>(now - lastLightReadTime) mod 2 ^ 32\<close>, computed on the integers, is at least
  \<open>lightReadInterval\<close>. This is so for all clock values, also when the clock has wrapped
  and \<open>now\<close> is the smaller number. A serviced pass stores the readings and the clock
  value; any other pass leaves the state alone.
\<close>

theorem timeToRead_unsigned_wraparound:
  "(timeToRead now s \<longleftrightarrow>
      uint (lightReadInterval s) \<le> (uint now - uint (lastLightReadTime s)) mod 2 ^ 32)
   \<and> (timeToRead now s \<and> wellFormed s \<longrightarrow>
        (\<exists>s'. handleInput now a b s = Some s' \<and> lastLightReadTime s' = now
           \<and> lightValue1 s' = a \<and> lightValue2 s' = b))
   \<and> (\<not> timeToRead now s \<longrightarrow> handleInput now a b s = Some s)"
proof (intro conjI impI)
  show "timeToRead now s \<longleftrightarrow>
      uint (lightReadInterval s) \<le> (uint now - uint (lastLightReadTime s)) mod 2 ^ 32"
    by (rule timeToRead_modular)
next
  assume h: "timeToRead now s \<and> wellFormed s"
  let ?s0 = "s\<lparr> lightValue1 := a, lightValue2 := b \<rparr>"
  have w0: "wellFormed ?s0"
    using h by (simp add: wellFormed_def arraysDeclared_def)
  from h handleInput_serviced [of s now a b] obtain u where
    u: "updateLightAverage a b ?s0 = Some u"
    and r: "handleInput now a b s =
       Some (u\<lparr> currentMovement := movementFor (smoothedLight1 u) (smoothedLight2 u),
                lastLightReadTime := now \<rparr>)"
    by blast
  have "lightValue1 u = a" "lightValue2 u = b"
    using update_frame(2,3) [OF w0 u] by simp_all
  then show "\<exists>s'. handleInput now a b s = Some s' \<and> lastLightReadTime s' = now
           \<and> lightValue1 s' = a \<and> lightValue2 s' = b"
    using r by simp
next
  assume "\<not> timeToRead now s"
  then show "handleInput now a b s = Some s" by (rule handleInput_skipped)
qed

theorem timeToRead_unsigned_wraparound_witness:
  "timeToRead 100 (startup\<lparr> lastLightReadTime := 4294967286 \<rparr>)
   \<and> wellFormed (startup\<lparr> lastLightReadTime := 4294967286 \<rparr>)
   \<and> (uint (100 :: 32 word) - uint (4294967286 :: 32 word)) mod 2 ^ 32 = 110
   \<and> map_option lastLightReadTime
        (handleInput 100 1000 200 (startup\<lparr> lastLightReadTime := 4294967286 \<rparr>)) = Some 100
   \<and> \<not> timeToRead 5 (startup\<lparr> lastLightReadTime := 4294967286 \<rparr>)
   \<and> (uint (5 :: 32 word) - uint (4294967286 :: 32 word)) mod 2 ^ 32 = 15
   \<and> handleInput 5 1000 200 (startup\<lparr> lastLightReadTime := 4294967286 \<rparr>)
        = Some (startup\<lparr> lastLightReadTime := 4294967286 \<rparr>)"
proof -
  let ?s = "startup\<lparr> lastLightReadTime := 4294967286 \<rparr>"
  have g: "timeToRead 100 ?s" by (simp add: timeToRead_def startup_def)
  have n: "\<not> timeToRead 5 ?s" by (simp add: timeToRead_def startup_def)
  have w: "wellFormed ?s" by (simp add: wellFormed_def arraysDeclared_def startup_def)
  have "\<exists>s'. handleInput 100 1000 200 ?s = Some s' \<and> lastLightReadTime s' = 100"
    using timeToRead_unsigned_wraparound [of 100 ?s 1000 200] g w by blast
  moreover have "handleInput 5 1000 200 ?s = Some ?s"
    using timeToRead_unsigned_wraparound [of 5 ?s 1000 200] n by blast
  ultimately show ?thesis using g n w by auto
qed

text \<open>
  C3. In every well-formed state and for every pair of samples, \<open>updateLightAverage\<close>
  does for each channel what an insertion is: the value at the write index is taken off
  the total, the slot is overwritten with the new sample, the new sample is added to the
  total, the write index moves on by one modulo 10, and the smoothed value is the new
  total divided by 10 with C's integer division, which cuts off the fraction.
\<close>

theorem updateLightAverage_insert:
  "wellFormed s \<longrightarrow>
     (\<exists>s'. updateLightAverage a b s = Some s'
        \<and> lightTotalValue1 s' =
            lightTotalValue1 s - lightReadings1 s ! nat (sint (lightReadIndex s)) + a
        \<and> lightReadings1 s' = (lightReadings1 s)[nat (sint (lightReadIndex s)) := a]
        \<and> lightTotalValue2 s' =
            lightTotalValue2 s - lightReadings2 s ! nat (sint (lightReadIndex s)) + b
        \<and> lightReadings2 s' = (lightReadings2 s)[nat (sint (lightReadIndex s)) := b]
        \<and> sint (lightReadIndex s') = (sint (lightReadIndex s) + 1) mod 10
        \<and> smoothedLight1 s' = c_div (lightTotalValue1 s') lightAverageWindow
        \<and> smoothedLight2 s' = c_div (lightTotalValue2 s') lightAverageWindow
        \<and> sint (smoothedLight1 s') =
            sgn (sint (lightTotalValue1 s')) * (\<bar>sint (lightTotalValue1 s')\<bar> div 10)
        \<and> sint (smoothedLight2 s') =
            sgn (sint (lightTotalValue2 s')) * (\<bar>sint (lightTotalValue2 s')\<bar> div 10))"
proof
  assume w: "wellFormed s"
  obtain s' where s': "updateLightAverage a b s = Some s'"
    using w by (simp add: updateLightAverage_Some)
  have r: "0 \<le> sint (lightReadIndex s)" "sint (lightReadIndex s) < 10"
    using w by (simp_all add: wellFormed_def)
  have idx: "sint (lightReadIndex s') = (sint (lightReadIndex s) + 1) mod 10"
    using s' sint_index_step [OF r] by (auto simp: updateLightAverage_Some [OF w])
  have sm: "smoothedLight1 s' = c_div (lightTotalValue1 s') lightAverageWindow"
    "smoothedLight2 s' = c_div (lightTotalValue2 s') lightAverageWindow"
    using update_smoothed [OF w s'] by simp_all
  have tr: "\<And>t. sint (c_div t lightAverageWindow) = sgn (sint t) * (\<bar>sint t\<bar> div 10)"
    by (simp add: sint_c_div_window signed_divide_int_def)
  have flds: "lightTotalValue1 s' =
            lightTotalValue1 s - lightReadings1 s ! nat (sint (lightReadIndex s)) + a"
    "lightReadings1 s' = (lightReadings1 s)[nat (sint (lightReadIndex s)) := a]"
    "lightTotalValue2 s' =
            lightTotalValue2 s - lightReadings2 s ! nat (sint (lightReadIndex s)) + b"
    "lightReadings2 s' = (lightReadings2 s)[nat (sint (lightReadIndex s)) := b]"
    using s' by (auto simp: updateLightAverage_Some [OF w])
  show "\<exists>s'. updateLightAverage a b s = Some s'
        \<and> lightTotalValue1 s' =
            lightTotalValue1 s - lightReadings1 s ! nat (sint (lightReadIndex s)) + a
        \<and> lightReadings1 s' = (lightReadings1 s)[nat (sint (lightReadIndex s)) := a]
        \<and> lightTotalValue2 s' =
            lightTotalValue2 s - lightReadings2 s ! nat (sint (lightReadIndex s)) + b
        \<and> lightReadings2 s' = (lightReadings2 s)[nat (sint (lightReadIndex s)) := b]
        \<and> sint (lightReadIndex s') = (sint (lightReadIndex s) + 1) mod 10
        \<and> smoothedLight1 s' = c_div (lightTotalValue1 s') lightAverageWindow
        \<and> smoothedLight2 s' = c_div (lightTotalValue2 s') lightAverageWindow
        \<and> sint (smoothedLight1 s') =
            sgn (sint (lightTotalValue1 s')) * (\<bar>sint (lightTotalValue1 s')\<bar> div 10)
        \<and> sint (smoothedLight2 s') =
            sgn (sint (lightTotalValue2 s')) * (\<bar>sint (lightTotalValue2 s')\<bar> div 10)"
    using s' flds idx sm tr [of "lightTotalValue1 s'"] tr [of "lightTotalValue2 s'"]
    by (intro exI [of _ s']) (simp only: simp_thms)
qed

theorem updateLightAverage_insert_witness:
  "wellFormed (startup\<lparr> lightReadings1 := [1, 2, 3, 4, 5, 6, 7, 8, 9, 10],
       lightTotalValue1 := 55, lightReadIndex := 9 \<rparr>)
   \<and> updateLightAverage 25 (- 7)
        (startup\<lparr> lightReadings1 := [1, 2, 3, 4, 5, 6, 7, 8, 9, 10],
           lightTotalValue1 := 55, lightReadIndex := 9 \<rparr>)
     = Some (startup\<lparr> lightReadings1 := [1, 2, 3, 4, 5, 6, 7, 8, 9, 25],
           lightTotalValue1 := 70, lightReadIndex := 0, smoothedLight1 := 7,
           lightReadings2 := [0, 0, 0, 0, 0, 0, 0, 0, 0, - 7],
           lightTotalValue2 := - 7, smoothedLight2 := 0 \<rparr>)"
proof -
  let ?s = "startup\<lparr> lightReadings1 := [1, 2, 3, 4, 5, 6, 7, 8, 9, 10],
       lightTotalValue1 := 55, lightReadIndex := 9 \<rparr>"
  have w: "wellFormed ?s" by (simp add: wellFormed_def arraysDeclared_def startup_def)
  from updateLightAverage_insert [of ?s 25 "- 7"] w obtain s' where
    s': "updateLightAverage 25 (- 7) ?s = Some s'"
    "lightTotalValue1 s' = lightTotalValue1 ?s - lightReadings1 ?s ! nat (sint (lightReadIndex ?s)) + 25"
    by blast
  have "updateLightAverage 25 (- 7) ?s
     = Some (startup\<lparr> lightReadings1 := [1, 2, 3, 4, 5, 6, 7, 8, 9, 25],
           lightTotalValue1 := 70, lightReadIndex := 0, smoothedLight1 := 7,
           lightReadings2 := [0, 0, 0, 0, 0, 0, 0, 0, 0, - 7],
           lightTotalValue2 := - 7, smoothedLight2 := 0 \<rparr>)"
    by (simp add: updateLightAverage_def indexInRange_def Let_def
        startup_def c_div_def c_rem_def lightAverageWindow_def
        signed_divide_int_def signed_modulo_int_def replicate_ten)
  then show ?thesis using w s' by simp
qed

lemma sint_sum_list:
  "sint (sum_list (xs :: 32 word list)) = signed_take_bit 31 (exactSum xs)"
proof (induction xs)
  case Nil
  then show ?case by (simp add: exactSum_def)
next
  case (Cons x xs)
  have "sint (x + sum_list xs) = signed_take_bit 31 (sint x + sint (sum_list xs))"
    by (simp add: sint_word_add)
  also have "\<dots> = signed_take_bit 31 (sint x + signed_take_bit 31 (exactSum xs))"
    by (simp only: Cons.IH)
  also have "\<dots> = signed_take_bit 31 (sint x + exactSum xs)"
    by (metis signed_take_bit_add signed_take_bit_signed_take_bit min.idem)
  finally show ?case by (simp add: exactSum_def)
qed

lemma sint_sum_list_exact:
  "sint (sum_list (xs :: 32 word list)) = exactSum xs
     \<longleftrightarrow> - 2147483648 \<le> exactSum xs \<and> exactSum xs < 2147483648"
  by (simp add: sint_sum_list signed_take_bit_int_eq_self_iff)

lemma filterInv_initialize:
  assumes "arraysDeclared s"
  shows "filterInv (initializeLightAverage s)"
  using assms
  by (simp add: initializeLightAverage_eq filterInv_def wellFormed_def arraysDeclared_def
      sum_list_replicate)

lemma filterInv_update:
  assumes "filterInv s" "updateLightAverage a b s = Some s'"
  shows "filterInv s'"
proof -
  have w: "wellFormed s" using assms(1) by (simp add: filterInv_def)
  have "wellFormed s'" using w assms(2) by (rule update_wellFormed)
  moreover have "lightTotalValue1 s' = sum_list (lightReadings1 s')"
    using update_drift(1) [OF w assms(2)] assms(1) by (simp add: filterInv_def)
  moreover have "lightTotalValue2 s' = sum_list (lightReadings2 s')"
    using update_drift(2) [OF w assms(2)] assms(1) by (simp add: filterInv_def)
  ultimately show ?thesis by (simp add: filterInv_def)
qed

lemma exactSum_bounds:
  "(\<And>x. x \<in> set xs \<Longrightarrow> 0 \<le> sint x \<and> sint x \<le> B) \<Longrightarrow>
   0 \<le> exactSum xs \<and> exactSum xs \<le> int (length xs) * B"
proof (induction xs)
  case Nil
  then show ?case by (simp add: exactSum_def)
next
  case (Cons x xs)
  have "0 \<le> sint x \<and> sint x \<le> B" using Cons.prems by simp
  moreover have "0 \<le> exactSum xs \<and> exactSum xs \<le> int (length xs) * B"
    using Cons.prems by (intro Cons.IH) simp
  ultimately show ?case by (simp add: exactSum_def algebra_simps)
qed

lemma sum_list_of_exactSum: "sum_list (xs :: 32 word list) = word_of_int (exactSum xs)"
  by (induction xs) (simp_all add: exactSum_def)

lemma sint_sum_list_samples:
  assumes "\<forall>x \<in> set xs. 0 \<le> sint x \<and> sint x \<le> 214748364" "length xs = 10"
  shows "sint (sum_list (xs :: 32 word list)) = exactSum xs"
proof -
  have "0 \<le> exactSum xs \<and> exactSum xs \<le> int (length xs) * 214748364"
    using assms(1) by (intro exactSum_bounds) simp
  then show ?thesis using assms(2) by (simp add: sint_sum_list_exact)
qed

text \<open>
  C4, as amended. The invariant of the two filters holds after \<open>initializeLightAverage\<close>,
  whatever the arrays held before, and every \<open>updateLightAverage\<close> keeps it: each array
  has exactly 10 entries, all zero after initialisation; an update overwrites the slot at
  the write index with the new sample, leaves the other slots alone and moves the index
  on by one modulo 10; and each running total is the sum of the current contents of its
  array reduced to the 32 bits of \<open>long\<close>. The total is the exact sum over the integers
  exactly when that sum fits 32 bits, so whenever all entries lie between 0 and
  214748364, as sensor readings do. Beyond that the total wraps around: after the samples
  2147483647 and 1 the buffer sums to 2147483648 and the total is -2147483648.
\<close>

theorem filterInv_invariant:
  "(arraysDeclared s0 \<longrightarrow>
      filterInv (initializeLightAverage s0)
      \<and> lightReadings1 (initializeLightAverage s0) = replicate 10 0
      \<and> lightReadings2 (initializeLightAverage s0) = replicate 10 0
      \<and> lightReadIndex (initializeLightAverage s0) = 0)
   \<and> (filterInv s \<longrightarrow>
        (\<exists>s'. updateLightAverage a b s = Some s' \<and> filterInv s'
           \<and> lightReadings1 s' = (lightReadings1 s)[nat (sint (lightReadIndex s)) := a]
           \<and> lightReadings2 s' = (lightReadings2 s)[nat (sint (lightReadIndex s)) := b]
           \<and> sint (lightReadIndex s') = (sint (lightReadIndex s) + 1) mod 10
           \<and> lightTotalValue1 s'
               = word_of_int (exactSum ((lightReadings1 s)[nat (sint (lightReadIndex s)) := a]))
           \<and> lightTotalValue2 s'
               = word_of_int (exactSum ((lightReadings2 s)[nat (sint (lightReadIndex s)) := b]))))
   \<and> (filterInv s \<longrightarrow>
        length (lightReadings1 s) = 10 \<and> length (lightReadings2 s) = 10
        \<and> 0 \<le> sint (lightReadIndex s) \<and> sint (lightReadIndex s) < 10
        \<and> lightTotalValue1 s = word_of_int (exactSum (lightReadings1 s))
        \<and> lightTotalValue2 s = word_of_int (exactSum (lightReadings2 s))
        \<and> (sint (lightTotalValue1 s) = exactSum (lightReadings1 s)
             \<longleftrightarrow> - 2147483648 \<le> exactSum (lightReadings1 s)
                 \<and> exactSum (lightReadings1 s) < 2147483648)
        \<and> (sint (lightTotalValue2 s) = exactSum (lightReadings2 s)
             \<longleftrightarrow> - 2147483648 \<le> exactSum (lightReadings2 s)
                 \<and> exactSum (lightReadings2 s) < 2147483648)
        \<and> ((\<forall>x \<in> set (lightReadings1 s). 0 \<le> sint x \<and> sint x \<le> 214748364)
             \<longrightarrow> sint (lightTotalValue1 s) = exactSum (lightReadings1 s))
        \<and> ((\<forall>x \<in> set (lightReadings2 s). 0 \<le> sint x \<and> sint x \<le> 214748364)
             \<longrightarrow> sint (lightTotalValue2 s) = exactSum (lightReadings2 s)))"
proof (intro conjI impI)
  assume d: "arraysDeclared s0"
  show "filterInv (initializeLightAverage s0)" using d by (rule filterInv_initialize)
  show "lightReadings1 (initializeLightAverage s0) = replicate 10 0"
    using d by (simp add: initializeLightAverage_eq)
  show "lightReadings2 (initializeLightAverage s0) = replicate 10 0"
    using d by (simp add: initializeLightAverage_eq)
  show "lightReadIndex (initializeLightAverage s0) = 0"
    using d by (simp add: initializeLightAverage_eq)
next
  assume i: "filterInv s"
  then have w: "wellFormed s" by (simp add: filterInv_def)
  obtain s' where s': "updateLightAverage a b s = Some s'"
    using w by (simp add: updateLightAverage_Some)
  have inv: "filterInv s'" using i s' by (rule filterInv_update)
  have r: "0 \<le> sint (lightReadIndex s)" "sint (lightReadIndex s) < 10"
    using w by (simp_all add: wellFormed_def)
  have idx: "sint (lightReadIndex s') = (sint (lightReadIndex s) + 1) mod 10"
    using s' sint_index_step [OF r] by (auto simp: updateLightAverage_Some [OF w])
  have b1: "lightReadings1 s' = (lightReadings1 s)[nat (sint (lightReadIndex s)) := a]"
    and b2: "lightReadings2 s' = (lightReadings2 s)[nat (sint (lightReadIndex s)) := b]"
    using s' by (auto simp: updateLightAverage_Some [OF w])
  have t1: "lightTotalValue1 s'
      = word_of_int (exactSum ((lightReadings1 s)[nat (sint (lightReadIndex s)) := a]))"
    using inv by (simp add: filterInv_def b1 sum_list_of_exactSum)
  have t2: "lightTotalValue2 s'
      = word_of_int (exactSum ((lightReadings2 s)[nat (sint (lightReadIndex s)) := b]))"
    using inv by (simp add: filterInv_def b2 sum_list_of_exactSum)
  show "\<exists>s'. updateLightAverage a b s = Some s' \<and> filterInv s'
           \<and> lightReadings1 s' = (lightReadings1 s)[nat (sint (lightReadIndex s)) := a]
           \<and> lightReadings2 s' = (lightReadings2 s)[nat (sint (lightReadIndex s)) := b]
           \<and> sint (lightReadIndex s') = (sint (lightReadIndex s) + 1) mod 10
           \<and> lightTotalValue1 s'
               = word_of_int (exactSum ((lightReadings1 s)[nat (sint (lightReadIndex s)) := a]))
           \<and> lightTotalValue2 s'
               = word_of_int (exactSum ((lightReadings2 s)[nat (sint (lightReadIndex s)) := b]))"
    using s' inv b1 b2 idx t1 t2 by blast
next
  assume i: "filterInv s"
  show len: "length (lightReadings1 s) = 10" "length (lightReadings2 s) = 10"
    using i by (simp_all add: filterInv_def wellFormed_def arraysDeclared_def)
  show "0 \<le> sint (lightReadIndex s)" "sint (lightReadIndex s) < 10"
    using i by (simp_all add: filterInv_def wellFormed_def)
  have t: "lightTotalValue1 s = sum_list (lightReadings1 s)"
    "lightTotalValue2 s = sum_list (lightReadings2 s)"
    using i by (simp_all add: filterInv_def)
  show "lightTotalValue1 s = word_of_int (exactSum (lightReadings1 s))"
    "lightTotalValue2 s = word_of_int (exactSum (lightReadings2 s))"
    by (simp_all add: t sum_list_of_exactSum)
  show "sint (lightTotalValue1 s) = exactSum (lightReadings1 s)
             \<longleftrightarrow> - 2147483648 \<le> exactSum (lightReadings1 s)
                 \<and> exactSum (lightReadings1 s) < 2147483648"
    unfolding t by (rule sint_sum_list_exact)
  show "sint (lightTotalValue2 s) = exactSum (lightReadings2 s)
             \<longleftrightarrow> - 2147483648 \<le> exactSum (lightReadings2 s)
                 \<and> exactSum (lightReadings2 s) < 2147483648"
    unfolding t by (rule sint_sum_list_exact)
  {
    assume "\<forall>x \<in> set (lightReadings1 s). 0 \<le> sint x \<and> sint x \<le> 214748364"
    then show "sint (lightTotalValue1 s) = exactSum (lightReadings1 s)"
      unfolding t using len(1) by (rule sint_sum_list_samples)
  }
  {
    assume "\<forall>x \<in> set (lightReadings2 s). 0 \<le> sint x \<and> sint x \<le> 214748364"
    then show "sint (lightTotalValue2 s) = exactSum (lightReadings2 s)"
      unfolding t using len(2) by (rule sint_sum_list_samples)
  }
qed

theorem filterInv_invariant_witness:
  "arraysDeclared startup \<and> filterInv (initializeLightAverage startup)
   \<and> updateLightAverage 1000 200 (initializeLightAverage startup)
       = Some (startup\<lparr> lightReadings1 := [1000, 0, 0, 0, 0, 0, 0, 0, 0, 0],
           lightTotalValue1 := 1000, lightReadIndex := 1, smoothedLight1 := 100,
           lightReadings2 := [200, 0, 0, 0, 0, 0, 0, 0, 0, 0],
           lightTotalValue2 := 200, smoothedLight2 := 20 \<rparr>)
   \<and> filterInv (startup\<lparr> lightReadings1 := [1000, 0, 0, 0, 0, 0, 0, 0, 0, 0],
           lightTotalValue1 := 1000, lightReadIndex := 1, smoothedLight1 := 100,
           lightReadings2 := [200, 0, 0, 0, 0, 0, 0, 0, 0, 0],
           lightTotalValue2 := 200, smoothedLight2 := 20 \<rparr>)
   \<and> sint (1000 :: c_long) = exactSum [1000, 0, 0, 0, 0, 0, 0, 0, 0, 0]"
proof -
  let ?s1 = "startup\<lparr> lightReadings1 := [1000, 0, 0, 0, 0, 0, 0, 0, 0, 0],
           lightTotalValue1 := 1000, lightReadIndex := 1, smoothedLight1 := 100,
           lightReadings2 := [200, 0, 0, 0, 0, 0, 0, 0, 0, 0],
           lightTotalValue2 := 200, smoothedLight2 := 20 \<rparr>"
  have i: "filterInv (initializeLightAverage startup)"
    using filterInv_invariant [of startup] arraysDeclared_startup by blast
  have u: "updateLightAverage 1000 200 (initializeLightAverage startup) = Some ?s1"
    unfolding initialized_startup
    by (simp add: updateLightAverage_def indexInRange_def Let_def
        startup_def c_div_def c_rem_def lightAverageWindow_def
        signed_divide_int_def signed_modulo_int_def replicate_ten)
  have "\<exists>s'. updateLightAverage 1000 200 (initializeLightAverage startup) = Some s'
      \<and> filterInv s'"
    using filterInv_invariant [where ?s0.0 = startup
        and s = "initializeLightAverage startup" and a = 1000 and b = 200] i
    by blast
  then have f: "filterInv ?s1" using u by auto
  have q: "\<forall>x \<in> set [1000, 0, 0, 0, 0, 0, 0, 0, 0, 0 :: c_int]. 0 \<le> sint x \<and> sint x \<le> 214748364"
    by simp
  have "(\<forall>x \<in> set (lightReadings1 ?s1). 0 \<le> sint x \<and> sint x \<le> 214748364)
      \<longrightarrow> sint (lightTotalValue1 ?s1) = exactSum (lightReadings1 ?s1)"
    using filterInv_invariant [where ?s0.0 = startup and s = ?s1 and a = 0 and b = 0] f
    by blast
  then have "sint (1000 :: c_long) = exactSum [1000, 0, 0, 0, 0, 0, 0, 0, 0, 0]"
    using q by (simp add: startup_def)
  then show ?thesis using arraysDeclared_startup i u f by simp
qed

theorem running_total_wraps_counterexample:
  "map_option lightReadings1
      (updates [(2147483647, 0), (1, 0)] (initializeLightAverage startup))
     = Some [2147483647, 1, 0, 0, 0, 0, 0, 0, 0, 0]
   \<and> map_option lightTotalValue1
      (updates [(2147483647, 0), (1, 0)] (initializeLightAverage startup))
     = Some (- 2147483648)
   \<and> sint (- 2147483648 :: c_long) = - 2147483648
   \<and> exactSum [2147483647, 1, 0, 0, 0, 0, 0, 0, 0, 0] = 2147483648"
  unfolding initialized_startup
  by (simp add: updateLightAverage_def indexInRange_def Let_def
        startup_def c_div_def c_rem_def lightAverageWindow_def
        signed_divide_int_def signed_modulo_int_def replicate_ten exactSum_def)

lemma exactSum_rotate: "exactSum (rotate n xs) = exactSum xs"
proof -
  let ?k = "n mod length xs"
  have "exactSum xs = exactSum (take ?k xs @ drop ?k xs)" by simp
  also have "\<dots> = exactSum (take ?k xs) + exactSum (drop ?k xs)"
    by (simp only: exactSum_def map_append sum_list_append)
  finally show ?thesis by (simp add: rotate_drop_take exactSum_def)
qed

lemma c_div_floor:
  assumes "0 \<le> exactSum xs" "exactSum xs < 2147483648"
  shows "sint (c_div (sum_list xs) lightAverageWindow) = floorAverage xs"
proof -
  have "sint (sum_list xs) = exactSum xs"
    using assms by (simp add: sint_sum_list_exact)
  then show ?thesis
    using assms by (simp add: sint_c_div_window sdiv_10 floorAverage_def)
qed

text \<open>A run from a freshly initialised state.\<close>

lemma updates_from_initial:
  assumes "arraysDeclared s0"
  shows "\<exists>s'. updates ps (initializeLightAverage s0) = Some s' \<and> filterInv s'
     \<and> window1 s' = drop (length ps) (replicate 10 0 @ map fst ps)
     \<and> window2 s' = drop (length ps) (replicate 10 0 @ map snd ps)
     \<and> (ps \<noteq> [] \<longrightarrow>
          smoothedLight1 s' = c_div (sum_list (lightReadings1 s')) lightAverageWindow
          \<and> smoothedLight2 s' = c_div (sum_list (lightReadings2 s')) lightAverageWindow)"
proof -
  let ?i = "initializeLightAverage s0"
  have i: "filterInv ?i" using assms by (rule filterInv_initialize)
  then have w: "wellFormed ?i" by (simp add: filterInv_def)
  have w0: "window1 ?i = replicate 10 0" "window2 ?i = replicate 10 0"
    using assms by (simp_all add: window1_def window2_def initializeLightAverage_eq)
  from updates_window [OF w, of ps] obtain s' where s':
    "updates ps ?i = Some s'" "wellFormed s'"
    "window1 s' = drop (length ps) (window1 ?i @ map fst ps)"
    "window2 s' = drop (length ps) (window2 ?i @ map snd ps)"
    "lightTotalValue1 s' - sum_list (lightReadings1 s')
       = lightTotalValue1 ?i - sum_list (lightReadings1 ?i)"
    "lightTotalValue2 s' - sum_list (lightReadings2 s')
       = lightTotalValue2 ?i - sum_list (lightReadings2 ?i)"
    by blast
  have t: "lightTotalValue1 s' = sum_list (lightReadings1 s')"
    "lightTotalValue2 s' = sum_list (lightReadings2 s')"
    using s'(5,6) i by (simp_all add: filterInv_def)
  have inv: "filterInv s'" using s'(2) t by (simp add: filterInv_def)
  have "ps \<noteq> [] \<longrightarrow>
          smoothedLight1 s' = c_div (sum_list (lightReadings1 s')) lightAverageWindow
          \<and> smoothedLight2 s' = c_div (sum_list (lightReadings2 s')) lightAverageWindow"
    using updates_smoothed [OF w _ s'(1)] t by auto
  then show ?thesis using s'(1,3,4) inv w0 by simp
qed

lemma sdiv_10_times: "(10 * k) sdiv 10 = (k::int)"
proof (cases "0 \<le> k")
  case True
  then show ?thesis by (simp add: sdiv_10)
next
  case False
  have "- (10 * k) = 10 * (- k)" by simp
  then have "- (10 * k) div 10 = - k"
    by (simp only: nonzero_mult_div_cancel_left)
  then show ?thesis using False by (simp add: sdiv_10)
qed

lemma c_div_ten_times:
  "c_div (10 * v) lightAverageWindow = v
     \<longleftrightarrow> - 214748364 \<le> sint v \<and> sint v \<le> 214748364"
proof (cases "- 214748364 \<le> sint v \<and> sint v \<le> 214748364")
  case True
  then have "sint (10 * v) = 10 * sint v"
    by (simp add: sint_word_mult signed_take_bit_int_eq_self)
  then have "sint (c_div (10 * v) lightAverageWindow) = sint v"
    by (simp add: sint_c_div_window sdiv_10_times)
  then have "c_div (10 * v) lightAverageWindow = v"
    by (rule signed_word_eqI)
  then show ?thesis using True by simp
next
  case False
  have "c_div (10 * v) lightAverageWindow \<noteq> v"
  proof
    assume "c_div (10 * v) lightAverageWindow = v"
    then have "- 214748364 \<le> sint v \<and> sint v \<le> 214748364"
      using c_div_window_range [of "10 * v"] by simp
    then show False using False by simp
  qed
  then show ?thesis using False by simp
qed

lemma constant_run:
  assumes "arraysDeclared s0"
  shows "\<exists>s'. updates (replicate 10 (v, w)) (initializeLightAverage s0) = Some s'
     \<and> window1 s' = replicate 10 v \<and> window2 s' = replicate 10 w
     \<and> smoothedLight1 s' = c_div (10 * v) lightAverageWindow
     \<and> smoothedLight2 s' = c_div (10 * w) lightAverageWindow"
proof -
  let ?ps = "replicate 10 (v, w)"
  from updates_from_initial [OF assms, of ?ps] obtain s' where s':
    "updates ?ps (initializeLightAverage s0) = Some s'"
    "window1 s' = drop (length ?ps) (replicate 10 0 @ map fst ?ps)"
    "window2 s' = drop (length ?ps) (replicate 10 0 @ map snd ?ps)"
    "smoothedLight1 s' = c_div (sum_list (lightReadings1 s')) lightAverageWindow"
    "smoothedLight2 s' = c_div (sum_list (lightReadings2 s')) lightAverageWindow"
    by auto
  have w1: "window1 s' = replicate 10 v" using s'(2) by simp
  have w2: "window2 s' = replicate 10 w" using s'(3) by simp
  have "sum_list (lightReadings1 s') = 10 * v"
    using window_sums(1) [of s'] by (simp add: w1 sum_list_replicate)
  moreover have "sum_list (lightReadings2 s') = 10 * w"
    using window_sums(2) [of s'] by (simp add: w2 sum_list_replicate)
  ultimately show ?thesis using s'(1,4,5) w1 w2 by simp
qed

text \<open>
  C6, as amended. Ten insertions of the same value \<open>v\<close> into a freshly initialised
  filter leave ten copies of \<open>v\<close> in the buffer, and the smoothed value returned by the
  last one is \<open>v\<close> exactly when \<open>v\<close> lies between -214748364 and 214748364, that is
  when \<open>10 * v\<close> fits the 32-bit total; every sensor reading does. Beyond that range
  the total wraps around: ten insertions of 300000000 give -129496729.
\<close>

theorem constant_input_average:
  "arraysDeclared s0 \<longrightarrow>
     (\<exists>s'. updates (replicate 10 (v, w)) (initializeLightAverage s0) = Some s'
        \<and> window1 s' = replicate 10 v \<and> window2 s' = replicate 10 w
        \<and> (smoothedLight1 s' = v \<longleftrightarrow> - 214748364 \<le> sint v \<and> sint v \<le> 214748364)
        \<and> (smoothedLight2 s' = w \<longleftrightarrow> - 214748364 \<le> sint w \<and> sint w \<le> 214748364))"
proof
  assume d: "arraysDeclared s0"
  from constant_run [OF d, of v w] obtain s' where s':
    "updates (replicate 10 (v, w)) (initializeLightAverage s0) = Some s'"
    "window1 s' = replicate 10 v" "window2 s' = replicate 10 w"
    "smoothedLight1 s' = c_div (10 * v) lightAverageWindow"
    "smoothedLight2 s' = c_div (10 * w) lightAverageWindow"
    by blast
  have "smoothedLight1 s' = v \<longleftrightarrow> - 214748364 \<le> sint v \<and> sint v \<le> 214748364"
    unfolding s'(4) by (rule c_div_ten_times)
  moreover have "smoothedLight2 s' = w \<longleftrightarrow> - 214748364 \<le> sint w \<and> sint w \<le> 214748364"
    unfolding s'(5) by (rule c_div_ten_times)
  ultimately show "\<exists>s'. updates (replicate 10 (v, w)) (initializeLightAverage s0) = Some s'
        \<and> window1 s' = replicate 10 v \<and> window2 s' = replicate 10 w
        \<and> (smoothedLight1 s' = v \<longleftrightarrow> - 214748364 \<le> sint v \<and> sint v \<le> 214748364)
        \<and> (smoothedLight2 s' = w \<longleftrightarrow> - 214748364 \<le> sint w \<and> sint w \<le> 214748364)"
    using s'(1,2,3) by blast
qed

theorem constant_input_average_witness:
  "arraysDeclared startup
   \<and> map_option smoothedLight1
       (updates (replicate 10 (1000, - 200)) (initializeLightAverage startup)) = Some 1000
   \<and> map_option smoothedLight2
       (updates (replicate 10 (1000, - 200)) (initializeLightAverage startup)) = Some (- 200)"
proof -
  have "- 214748364 \<le> sint (1000 :: 32 word) \<and> sint (1000 :: 32 word) \<le> 214748364"
    "- 214748364 \<le> sint (- 200 :: 32 word) \<and> sint (- 200 :: 32 word) \<le> 214748364"
    by simp_all
  then show ?thesis
    using constant_input_average [of startup 1000 "- 200"] arraysDeclared_startup
    by auto
qed

theorem constant_input_overflow_counterexample:
  "map_option smoothedLight1
     (updates (replicate 10 (300000000, 0)) (initializeLightAverage startup))
   = Some (- 129496729)"
proof -
  from constant_run [OF arraysDeclared_startup, of 300000000 0] obtain s' where s':
    "updates (replicate 10 (300000000, 0)) (initializeLightAverage startup) = Some s'"
    "smoothedLight1 s' = c_div (10 * 300000000) lightAverageWindow"
    by blast
  have "c_div (10 * 300000000) lightAverageWindow = - 129496729"
    by (simp add: c_div_def lightAverageWindow_def signed_divide_int_def)
  then show ?thesis using s' by simp
qed

text \<open>
  C5, as amended. After each insertion into a filter that was freshly initialised, the
  buffer holds the inserted samples and the zeros of the initialisation not yet
  overwritten, and the smoothed value is the 32-bit total divided by 10 with the fraction
  cut off. It equals \<open>floor (sum / 10)\<close> of the buffer contents whenever that sum, taken
  over the integers, is at least 0 and below \<open>2 ^ 31\<close>; this is so whenever all inserted
  samples lie between 0 and 214748364, as sensor readings do. For a negative sum the two
  roundings differ: the single sample -1 gives 0, and the floor is -1.
\<close>

theorem smoothed_floor_average:
  "arraysDeclared s0 \<and> ps \<noteq> [] \<longrightarrow>
     (\<exists>s'. updates ps (initializeLightAverage s0) = Some s'
        \<and> window1 s' = drop (length ps) (replicate 10 0 @ map fst ps)
        \<and> window2 s' = drop (length ps) (replicate 10 0 @ map snd ps)
        \<and> sint (smoothedLight1 s') = sint (sum_list (lightReadings1 s')) sdiv 10
        \<and> sint (smoothedLight2 s') = sint (sum_list (lightReadings2 s')) sdiv 10
        \<and> (0 \<le> exactSum (lightReadings1 s') \<and> exactSum (lightReadings1 s') < 2147483648
             \<longrightarrow> sint (smoothedLight1 s') = floorAverage (lightReadings1 s'))
        \<and> (0 \<le> exactSum (lightReadings2 s') \<and> exactSum (lightReadings2 s') < 2147483648
             \<longrightarrow> sint (smoothedLight2 s') = floorAverage (lightReadings2 s'))
        \<and> ((\<forall>x \<in> set (map fst ps). 0 \<le> sint x \<and> sint x \<le> 214748364)
             \<longrightarrow> sint (smoothedLight1 s') = floorAverage (lightReadings1 s'))
        \<and> ((\<forall>x \<in> set (map snd ps). 0 \<le> sint x \<and> sint x \<le> 214748364)
             \<longrightarrow> sint (smoothedLight2 s') = floorAverage (lightReadings2 s')))"
proof
  assume h: "arraysDeclared s0 \<and> ps \<noteq> []"
  from updates_from_initial [of s0 ps] h obtain s' where s':
    "updates ps (initializeLightAverage s0) = Some s'" "filterInv s'"
    "window1 s' = drop (length ps) (replicate 10 0 @ map fst ps)"
    "window2 s' = drop (length ps) (replicate 10 0 @ map snd ps)"
    "smoothedLight1 s' = c_div (sum_list (lightReadings1 s')) lightAverageWindow"
    "smoothedLight2 s' = c_div (sum_list (lightReadings2 s')) lightAverageWindow"
    by auto
  have len: "length (lightReadings1 s') = 10" "length (lightReadings2 s') = 10"
    using s'(2) by (simp_all add: filterInv_def wellFormed_def arraysDeclared_def)
  have t1: "sint (smoothedLight1 s') = sint (sum_list (lightReadings1 s')) sdiv 10"
    by (simp add: s'(5) sint_c_div_window)
  have t2: "sint (smoothedLight2 s') = sint (sum_list (lightReadings2 s')) sdiv 10"
    by (simp add: s'(6) sint_c_div_window)
  have f1: "0 \<le> exactSum (lightReadings1 s') \<and> exactSum (lightReadings1 s') < 2147483648
             \<longrightarrow> sint (smoothedLight1 s') = floorAverage (lightReadings1 s')"
    by (simp add: s'(5) c_div_floor)
  have f2: "0 \<le> exactSum (lightReadings2 s') \<and> exactSum (lightReadings2 s') < 2147483648
             \<longrightarrow> sint (smoothedLight2 s') = floorAverage (lightReadings2 s')"
    by (simp add: s'(6) c_div_floor)
  have g1: "(\<forall>x \<in> set (map fst ps). 0 \<le> sint x \<and> sint x \<le> 214748364)
             \<longrightarrow> sint (smoothedLight1 s') = floorAverage (lightReadings1 s')"
  proof
    assume r: "\<forall>x \<in> set (map fst ps). 0 \<le> sint x \<and> sint x \<le> 214748364"
    have "set (lightReadings1 s') = set (window1 s')" by (simp add: window1_def)
    also have "\<dots> \<subseteq> set (replicate 10 0 @ map fst ps)"
      unfolding s'(3) by (rule set_drop_subset)
    finally have "\<And>x. x \<in> set (lightReadings1 s') \<Longrightarrow> 0 \<le> sint x \<and> sint x \<le> 214748364"
      using r by auto
    then have "0 \<le> exactSum (lightReadings1 s')
        \<and> exactSum (lightReadings1 s') \<le> int (length (lightReadings1 s')) * 214748364"
      by (rule exactSum_bounds)
    then show "sint (smoothedLight1 s') = floorAverage (lightReadings1 s')"
      using f1 len by simp
  qed
  have g2: "(\<forall>x \<in> set (map snd ps). 0 \<le> sint x \<and> sint x \<le> 214748364)
             \<longrightarrow> sint (smoothedLight2 s') = floorAverage (lightReadings2 s')"
  proof
    assume r: "\<forall>x \<in> set (map snd ps). 0 \<le> sint x \<and> sint x \<le> 214748364"
    have "set (lightReadings2 s') = set (window2 s')" by (simp add: window2_def)
    also have "\<dots> \<subseteq> set (replicate 10 0 @ map snd ps)"
      unfolding s'(4) by (rule set_drop_subset)
    finally have "\<And>x. x \<in> set (lightReadings2 s') \<Longrightarrow> 0 \<le> sint x \<and> sint x \<le> 214748364"
      using r by auto
    then have "0 \<le> exactSum (lightReadings2 s')
        \<and> exactSum (lightReadings2 s') \<le> int (length (lightReadings2 s')) * 214748364"
      by (rule exactSum_bounds)
    then show "sint (smoothedLight2 s') = floorAverage (lightReadings2 s')"
      using f2 len by simp
  qed
  show "\<exists>s'. updates ps (initializeLightAverage s0) = Some s'
        \<and> window1 s' = drop (length ps) (replicate 10 0 @ map fst ps)
        \<and> window2 s' = drop (length ps) (replicate 10 0 @ map snd ps)
        \<and> sint (smoothedLight1 s') = sint (sum_list (lightReadings1 s')) sdiv 10
        \<and> sint (smoothedLight2 s') = sint (sum_list (lightReadings2 s')) sdiv 10
        \<and> (0 \<le> exactSum (lightReadings1 s') \<and> exactSum (lightReadings1 s') < 2147483648
             \<longrightarrow> sint (smoothedLight1 s') = floorAverage (lightReadings1 s'))
        \<and> (0 \<le> exactSum (lightReadings2 s') \<and> exactSum (lightReadings2 s') < 2147483648
             \<longrightarrow> sint (smoothedLight2 s') = floorAverage (lightReadings2 s'))
        \<and> ((\<forall>x \<in> set (map fst ps). 0 \<le> sint x \<and> sint x \<le> 214748364)
             \<longrightarrow> sint (smoothedLight1 s') = floorAverage (lightReadings1 s'))
        \<and> ((\<forall>x \<in> set (map snd ps). 0 \<le> sint x \<and> sint x \<le> 214748364)
             \<longrightarrow> sint (smoothedLight2 s') = floorAverage (lightReadings2 s'))"
    using s'(1,3,4) t1 t2 f1 f2 g1 g2 by blast
qed

theorem smoothed_floor_average_witness:
  "arraysDeclared startup \<and> [(1023, 7), (512, 0), (3, 1023)] \<noteq> ([] :: (c_int \<times> c_int) list)
   \<and> map_option lightReadings1
        (updates [(1023, 7), (512, 0), (3, 1023)] (initializeLightAverage startup))
      = Some [1023, 512, 3, 0, 0, 0, 0, 0, 0, 0]
   \<and> map_option smoothedLight1
        (updates [(1023, 7), (512, 0), (3, 1023)] (initializeLightAverage startup))
      = Some 153
   \<and> floorAverage [1023, 512, 3, 0, 0, 0, 0, 0, 0, 0] = 153"
proof -
  let ?ps = "[(1023, 7), (512, 0), (3, 1023)] :: (c_int \<times> c_int) list"
  have r: "\<forall>x \<in> set (map fst ?ps). 0 \<le> sint x \<and> sint x \<le> 214748364" by simp
  from smoothed_floor_average [of startup ?ps] arraysDeclared_startup r obtain s' where s':
    "updates ?ps (initializeLightAverage startup) = Some s'"
    "sint (smoothedLight1 s') = floorAverage (lightReadings1 s')"
    by auto
  have b: "map_option lightReadings1 (updates ?ps (initializeLightAverage startup))
      = Some [1023, 512, 3, 0, 0, 0, 0, 0, 0, 0]"
    unfolding initialized_startup
    by (simp add: updateLightAverage_def indexInRange_def Let_def
        startup_def c_div_def c_rem_def lightAverageWindow_def
        signed_divide_int_def signed_modulo_int_def replicate_ten)
  have f: "floorAverage [1023, 512, 3, 0, 0, 0, 0, 0, 0, 0] = 153"
    by (simp add: floorAverage_def exactSum_def)
  have "lightReadings1 s' = [1023, 512, 3, 0, 0, 0, 0, 0, 0, 0]" using b s'(1) by simp
  then have "sint (smoothedLight1 s') = 153" using s'(2) f by simp
  then have "sint (smoothedLight1 s') = sint (153 :: 32 word)" by simp
  then have "smoothedLight1 s' = 153" by (rule signed_word_eqI)
  then show ?thesis using arraysDeclared_startup s'(1) b f by simp
qed

theorem smoothed_floor_negative_counterexample:
  "map_option smoothedLight1
      (updates [(- 1, 0)] (initializeLightAverage startup)) = Some 0
   \<and> map_option lightReadings1
      (updates [(- 1, 0)] (initializeLightAverage startup))
       = Some [- 1, 0, 0, 0, 0, 0, 0, 0, 0, 0]
   \<and> floorAverage [- 1, 0, 0, 0, 0, 0, 0, 0, 0, 0] = - 1"
  unfolding initialized_startup
  by (simp add: updateLightAverage_def indexInRange_def Let_def
        startup_def c_div_def c_rem_def lightAverageWindow_def
        signed_divide_int_def signed_modulo_int_def replicate_ten floorAverage_def exactSum_def)

lemma channels_update:
  assumes "wellFormed s" "updateLightAverage a b s = Some s'"
  shows "channel1 s' = insertSample (channel1 s) a"
    and "channel2 s' = insertSample (channel2 s) b"
    and "smoothedLight1 s' = smoothed (channel1 s')"
    and "smoothedLight2 s' = smoothed (channel2 s')"
proof -
  have i: "nat (sint (lightReadIndex s')) = (nat (sint (lightReadIndex s)) + 1) mod 10"
    using assms by (rule update_index)
  have f: "lightReadings1 s' = (lightReadings1 s)[nat (sint (lightReadIndex s)) := a]"
    "lightTotalValue1 s' =
       lightTotalValue1 s - lightReadings1 s ! nat (sint (lightReadIndex s)) + a"
    "lightReadings2 s' = (lightReadings2 s)[nat (sint (lightReadIndex s)) := b]"
    "lightTotalValue2 s' =
       lightTotalValue2 s - lightReadings2 s ! nat (sint (lightReadIndex s)) + b"
    using assms(2) by (auto simp: updateLightAverage_Some [OF assms(1)])
  show "channel1 s' = insertSample (channel1 s) a"
    by (simp add: channel1_def insertSample_def i f)
  show "channel2 s' = insertSample (channel2 s) b"
    by (simp add: channel2_def insertSample_def i f)
  show "smoothedLight1 s' = smoothed (channel1 s')"
    using update_smoothed(1) [OF assms]
    by (simp add: smoothed_def channel1_def lightAverageWindow_def)
  show "smoothedLight2 s' = smoothed (channel2 s')"
    using update_smoothed(2) [OF assms]
    by (simp add: smoothed_def channel2_def lightAverageWindow_def)
qed

lemma channels_updates:
  "wellFormed s \<Longrightarrow>
   \<exists>s'. updates ps s = Some s' \<and> wellFormed s'
     \<and> channel1 s' = foldl insertSample (channel1 s) (map fst ps)
     \<and> channel2 s' = foldl insertSample (channel2 s) (map snd ps)"
proof (induction ps arbitrary: s)
  case Nil
  then show ?case by simp
next
  case (Cons p ps)
  obtain a b where p: "p = (a, b)" by (cases p)
  obtain u where u: "updateLightAverage a b s = Some u"
    using Cons.prems by (simp add: updateLightAverage_Some)
  have wu: "wellFormed u" using Cons.prems u by (rule update_wellFormed)
  from Cons.IH [OF wu] obtain s' where s':
    "updates ps u = Some s'" "wellFormed s'"
    "channel1 s' = foldl insertSample (channel1 u) (map fst ps)"
    "channel2 s' = foldl insertSample (channel2 u) (map snd ps)"
    by blast
  have "updates (p # ps) s = Some s'" using u s'(1) by (simp add: p)
  then show ?case
    using s'(2,3,4) channels_update(1,2) [OF Cons.prems u] by (simp add: p)
qed

lemma cursor_foldl:
  "cursor (foldl insertSample f vs) = (cursor f + length vs) mod 10" if "cursor f < 10"
  using that
proof (induction vs arbitrary: f)
  case Nil
  then show ?case by simp
next
  case (Cons v vs)
  have c: "cursor (insertSample f v) = (cursor f + 1) mod 10"
    by (simp add: insertSample_def)
  then have "cursor (insertSample f v) < 10" by simp
  then have "cursor (foldl insertSample (insertSample f v) vs)
      = (cursor (insertSample f v) + length vs) mod 10"
    by (rule Cons.IH)
  then have "cursor (foldl insertSample f (v # vs))
      = ((cursor f + 1) mod 10 + length vs) mod 10"
    by (simp only: c foldl.simps)
  also have "\<dots> = (cursor f + 1 + length vs) mod 10"
    by (simp only: mod_add_left_eq)
  also have "\<dots> = (cursor f + length (v # vs)) mod 10" by simp
  finally show ?case .
qed

text \<open>
  C9. Both channels are written at the one index \<open>lightReadIndex\<close>. The code behaves as
  two filters of their own, each with its buffer, its running sum and its cursor:
  initialisation resets both, every \<open>updateLightAverage\<close> is one insertion into each, and
  the smoothed values are those of the two filters. After any number of updates the two
  cursors are equal, both being the number of updates modulo 10, so the two buffers have
  been written at the same positions the same number of times.
\<close>

theorem channels_in_lockstep:
  "(arraysDeclared s0 \<longrightarrow>
      channel1 (initializeLightAverage s0) = resetFilter
      \<and> channel2 (initializeLightAverage s0) = resetFilter)
   \<and> (wellFormed s \<longrightarrow>
        (\<exists>s'. updateLightAverage a b s = Some s'
           \<and> channel1 s' = insertSample (channel1 s) a
           \<and> channel2 s' = insertSample (channel2 s) b
           \<and> smoothedLight1 s' = smoothed (channel1 s')
           \<and> smoothedLight2 s' = smoothed (channel2 s')
           \<and> cursor (channel1 s') = cursor (channel2 s')))
   \<and> (arraysDeclared s0 \<longrightarrow>
        (\<exists>s'. updates ps (initializeLightAverage s0) = Some s'
           \<and> channel1 s' = foldl insertSample resetFilter (map fst ps)
           \<and> channel2 s' = foldl insertSample resetFilter (map snd ps)
           \<and> cursor (channel1 s') = cursor (channel2 s')
           \<and> cursor (channel1 s') = length ps mod 10))"
proof (intro conjI impI)
  assume d: "arraysDeclared s0"
  show "channel1 (initializeLightAverage s0) = resetFilter"
    using d by (simp add: channel1_def resetFilter_def initializeLightAverage_eq)
  show "channel2 (initializeLightAverage s0) = resetFilter"
    using d by (simp add: channel2_def resetFilter_def initializeLightAverage_eq)
next
  assume w: "wellFormed s"
  obtain s' where s': "updateLightAverage a b s = Some s'"
    using w by (simp add: updateLightAverage_Some)
  have "cursor (channel1 s') = cursor (channel2 s')"
    by (simp add: channel1_def channel2_def)
  then show "\<exists>s'. updateLightAverage a b s = Some s'
           \<and> channel1 s' = insertSample (channel1 s) a
           \<and> channel2 s' = insertSample (channel2 s) b
           \<and> smoothedLight1 s' = smoothed (channel1 s')
           \<and> smoothedLight2 s' = smoothed (channel2 s')
           \<and> cursor (channel1 s') = cursor (channel2 s')"
    using s' channels_update [OF w s'] by blast
next
  assume d: "arraysDeclared s0"
  let ?i = "initializeLightAverage s0"
  have c: "channel1 ?i = resetFilter" "channel2 ?i = resetFilter"
    using d by (simp_all add: channel1_def channel2_def resetFilter_def initializeLightAverage_eq)
  have w: "wellFormed ?i"
    using filterInv_initialize [OF d] by (simp add: filterInv_def)
  from channels_updates [OF w, of ps] obtain s' where s':
    "updates ps ?i = Some s'"
    "channel1 s' = foldl insertSample (channel1 ?i) (map fst ps)"
    "channel2 s' = foldl insertSample (channel2 ?i) (map snd ps)"
    by blast
  have "cursor (foldl insertSample resetFilter (map fst ps)) = length ps mod 10"
    using cursor_foldl [of resetFilter "map fst ps"] by (simp add: resetFilter_def)
  then have "cursor (channel1 s') = length ps mod 10" by (simp add: s'(2) c)
  moreover have "cursor (channel1 s') = cursor (channel2 s')"
    by (simp add: channel1_def channel2_def)
  ultimately show "\<exists>s'. updates ps ?i = Some s'
           \<and> channel1 s' = foldl insertSample resetFilter (map fst ps)
           \<and> channel2 s' = foldl insertSample resetFilter (map snd ps)
           \<and> cursor (channel1 s') = cursor (channel2 s')
           \<and> cursor (channel1 s') = length ps mod 10"
    using s' c by auto
qed

theorem channels_in_lockstep_witness:
  "arraysDeclared startup \<and> wellFormed (initializeLightAverage startup)
   \<and> map_option channel1 (updates [(5, 6), (7, 8)] (initializeLightAverage startup))
       = Some \<lparr> samples = [5, 7, 0, 0, 0, 0, 0, 0, 0, 0], runningSum = 12, cursor = 2 \<rparr>
   \<and> map_option channel2 (updates [(5, 6), (7, 8)] (initializeLightAverage startup))
       = Some \<lparr> samples = [6, 8, 0, 0, 0, 0, 0, 0, 0, 0], runningSum = 14, cursor = 2 \<rparr>"
proof -
  have w: "wellFormed (initializeLightAverage startup)"
    unfolding initialized_startup by (rule wellFormed_startup)
  let ?ps = "[(5, 6), (7, 8)] :: (c_int \<times> c_int) list"
  from channels_in_lockstep [where ?s0.0 = startup and ps = ?ps
      and s = "initializeLightAverage startup" and a = 5 and b = 6]
    arraysDeclared_startup w
  obtain s' where s':
    "updates ?ps (initializeLightAverage startup) = Some s'"
    "channel1 s' = foldl insertSample resetFilter (map fst ?ps)"
    "channel2 s' = foldl insertSample resetFilter (map snd ?ps)"
    by blast
  have "channel1 s' = \<lparr> samples = [5, 7, 0, 0, 0, 0, 0, 0, 0, 0], runningSum = 12, cursor = 2 \<rparr>"
    unfolding s'(2) by (simp add: insertSample_def resetFilter_def replicate_ten)
  moreover have "channel2 s' = \<lparr> samples = [6, 8, 0, 0, 0, 0, 0, 0, 0, 0], runningSum = 14, cursor = 2 \<rparr>"
    unfolding s'(3) by (simp add: insertSample_def resetFilter_def replicate_ten)
  ultimately show ?thesis using arraysDeclared_startup w s'(1) by simp
qed






end
